(* ===== verification/Prelude.thy ===== *)
theory Prelude
  imports Main "HOL-Library.Monad_Syntax"
begin

text \<open>
  Shared vocabulary of the ledger development.
  \<^item> The names of the model's types: addresses are strings (a public key in hex), amounts
    and timestamps are JavaScript numbers holding integral values, modelled as \<open>int\<close>.
  \<^item> The exceptions that \<open>src/src/blockchain.js\<close> throws, one constructor per
    \<open>throw new Error(...)\<close> site, plus the \<open>TypeError\<close> that reading a field of
    \<open>undefined\<close> raises and the error \<open>elliptic\<close> raises on a key or signature it
    cannot decode. Every operation that may throw returns \<open>error + 'a\<close>.
  \<^item> The crypto capability the code consumes: \<open>crypto.createHash('sha256')\<close> and the
    secp256k1 primitives of the \<open>elliptic\<close> library. They are parameters of every
    operation (a record of functions), never axioms; \<open>sound_signatures\<close> is the one
    property of them that theorems assume.
  \<^item> Generic list lemmas the components share.
\<close>

named_theorems js_simps "evaluation rules of the JavaScript runtime model"
named_theorems ledger_inv_simps "rules that unfold the ledger invariants"

type_synonym address = string

text \<open>The exceptions of the source, by the spec's taxonomy (section 7).\<close>

datatype error =
    AuthorizationError          \<comment> \<open>blockchain.js line 30: signing for another wallet\<close>
  | MissingSignatureError       \<comment> \<open>line 44: a real sender without signature\<close>
  | MalformedTransactionError   \<comment> \<open>line 145: sender or recipient missing\<close>
  | InvalidSignatureError       \<comment> \<open>line 150: \<open>isValid()\<close> returned false\<close>
  | NonPositiveAmountError      \<comment> \<open>line 154\<close>
  | InsufficientFundsError      \<comment> \<open>line 159\<close>
  | OverspendError              \<comment> \<open>line 176\<close>
  | TypeError                   \<comment> \<open>field access on \<open>undefined\<close>\<close>
  | LibraryError                \<comment> \<open>line 47--48: \<open>elliptic\<close> cannot decode the key or signature\<close>

text \<open>
  The external collaborators. \<open>sha256\<close> is \<open>createHash('sha256').update(s).digest('hex')\<close>;
  \<open>ec_sign k m\<close> is \<open>k.sign(m).toDER('hex')\<close>; \<open>ec_verify p m s\<close> is
  \<open>ec.keyFromPublic(p, 'hex').verify(m, s)\<close>, \<open>None\<close> when it throws (\<open>p\<close> is
  not the hex encoding of a curve point, or \<open>s\<close> is not a DER signature); \<open>ec_public k\<close> is
  \<open>k.getPublic('hex')\<close>; \<open>ec_keyFromPrivate h\<close> is \<open>ec.keyFromPrivate(h)\<close>;
  \<open>ec_genKeyPair n\<close> is \<open>ec.genKeyPair()\<close> when the library draws the entropy \<open>n\<close>;
  \<open>ec_getPrivate k\<close> is \<open>k.getPrivate('hex')\<close>.
  The key type is a parameter.
\<close>

record 'k crypto =
  sha256 :: "string \<Rightarrow> string"
  ec_sign :: "'k \<Rightarrow> string \<Rightarrow> string"
  ec_verify :: "string \<Rightarrow> string \<Rightarrow> string \<Rightarrow> bool option"
  ec_public :: "'k \<Rightarrow> string"
  ec_keyFromPrivate :: "string \<Rightarrow> 'k"
  ec_genKeyPair :: "nat \<Rightarrow> 'k"
  ec_getPrivate :: "'k \<Rightarrow> string"

text \<open>
  The signature round trip the spec requires of the primitive (section 8): a signature made
  with a key verifies against that key's public identity, and a DER encoding is never empty.
\<close>

definition sound_signatures :: "'k crypto \<Rightarrow> bool" where
  "sound_signatures C \<longleftrightarrow>
     (\<forall>k m. ec_sign C k m \<noteq> [] \<and> ec_verify C (ec_public C k) m (ec_sign C k m) = Some True)"

text \<open>
  Sequencing of JavaScript statements: a statement either does not return (\<open>None\<close>,
  only the proof-of-work loop can), throws (\<open>Some (Inl e)\<close>: the rest is skipped),
  or returns a value (\<open>Some (Inr v)\<close>).
\<close>

type_synonym 'a js_result = "(error + 'a) option"

definition js_bind :: "'a js_result \<Rightarrow> ('a \<Rightarrow> 'b js_result) \<Rightarrow> 'b js_result" where
  "js_bind m f = (case m of None \<Rightarrow> None | Some (Inl e) \<Rightarrow> Some (Inl e) | Some (Inr v) \<Rightarrow> f v)"

subsection \<open>Generic lemmas\<close>

lemma js_bind_simps [simp]:
  "js_bind None f = None"
  "js_bind (Some (Inl e)) f = Some (Inl e)"
  "js_bind (Some (Inr v)) f = f v"
  by (simp_all add: js_bind_def)

lemma js_bind_eq_Some_Inr:
  "js_bind m f = Some (Inr w) \<longleftrightarrow> (\<exists>v. m = Some (Inr v) \<and> f v = Some (Inr w))"
  by (auto simp: js_bind_def split: option.splits sum.splits)

text \<open>The shape in which a statement sequence that is known to return is taken apart.\<close>

lemma js_bind_SomeE:
  assumes "js_bind m f = Some r" and "\<And>r'. m = Some r' \<Longrightarrow> \<exists>v. r' = Inr v \<and> P v"
  shows "\<exists>v. m = Some (Inr v) \<and> P v \<and> f v = Some r"
  using assms by (cases m) (auto simp: js_bind_def split: sum.splits)

lemma foldl_add_shift:
  "foldl (\<lambda>b x. b + f x) (a :: 'a :: comm_monoid_add) xs = a + sum_list (map f xs)"
  by (induction xs arbitrary: a) (simp_all add: add.assoc)

lemma foldl_plus_sum_list:
  "foldl (+) (a :: 'a :: comm_monoid_add) xs = a + sum_list xs"
  using foldl_add_shift [where f = id] by simp

lemma foldl_snoc_filter:
  "foldl (\<lambda>acc x. if P x then acc @ [x] else acc) acc xs = acc @ filter P xs"
  by (induction xs arbitrary: acc) simp_all

lemma sum_list_map_nonneg:
  "(\<And>x. x \<in> set xs \<Longrightarrow> (0 :: int) \<le> f x) \<Longrightarrow> 0 \<le> sum_list (map f xs)"
  by (induction xs) simp_all

text \<open>
  A printer with a reader that inverts it on every suffix satisfying \<open>P\<close> is injective
  in that context: the shape of every injectivity proof of the serialisations.
\<close>

lemma reader_prefix_inj:
  assumes rd: "\<And>x r. P r \<Longrightarrow> rd (pr x @ r) = Some (x, r)"
    and "P r" and "P r'" and eq: "pr x @ r = pr y @ r'"
  shows "x = y \<and> r = r'"
proof -
  have "Some (x, r) = rd (pr x @ r)" using rd \<open>P r\<close> by simp
  also have "\<dots> = Some (y, r')" using eq rd \<open>P r'\<close> by simp
  finally show ?thesis by simp
qed

lemma Cons_eq_append_Cons:
  "x # xs = pre @ t # post \<longleftrightarrow>
     (pre = [] \<and> t = x \<and> post = xs) \<or> (\<exists>pre'. pre = x # pre' \<and> xs = pre' @ t # post)"
  by (cases pre) auto

text \<open>The first element of a list that satisfies \<open>Q\<close>, all before it satisfying \<open>P\<close>:
  the shape of a loop's early exit.\<close>

lemma first_match_Cons:
  "(\<exists>pre t post. x # xs = pre @ t # post \<and> (\<forall>u \<in> set pre. P u) \<and> Q t) \<longleftrightarrow>
   Q x \<or> (P x \<and> (\<exists>pre t post. xs = pre @ t # post \<and> (\<forall>u \<in> set pre. P u) \<and> Q t))"
proof
  assume "\<exists>pre t post. x # xs = pre @ t # post \<and> (\<forall>u \<in> set pre. P u) \<and> Q t"
  then obtain pre t post where eq: "x # xs = pre @ t # post"
    and pre: "\<forall>u \<in> set pre. P u" and t: "Q t" by blast
  from eq consider "pre = []" "t = x" | pre' where "pre = x # pre'" "xs = pre' @ t # post"
    unfolding Cons_eq_append_Cons by blast
  then show "Q x \<or> (P x \<and> (\<exists>pre t post. xs = pre @ t # post \<and> (\<forall>u \<in> set pre. P u) \<and> Q t))"
  proof cases
    case 1
    with t show ?thesis by simp
  next
    case 2
    with pre t show ?thesis by auto
  qed
next
  assume "Q x \<or> (P x \<and> (\<exists>pre t post. xs = pre @ t # post \<and> (\<forall>u \<in> set pre. P u) \<and> Q t))"
  then show "\<exists>pre t post. x # xs = pre @ t # post \<and> (\<forall>u \<in> set pre. P u) \<and> Q t"
  proof
    assume "Q x"
    then show ?thesis by (intro exI [of _ "[]"] exI [of _ x] exI [of _ xs]) simp
  next
    assume "P x \<and> (\<exists>pre t post. xs = pre @ t # post \<and> (\<forall>u \<in> set pre. P u) \<and> Q t)"
    then obtain pre t post where "P x" "xs = pre @ t # post" "\<forall>u \<in> set pre. P u" "Q t" by blast
    then show ?thesis by (intro exI [of _ "x # pre"] exI [of _ t] exI [of _ post]) simp
  qed
qed

text \<open>Adjacent pairs of a list, by index and by \<open>zip\<close>.\<close>

lemma chain_pairs:
  "(\<forall>i \<in> {1..<length (g # bs)}. P ((g # bs) ! (i - 1)) ((g # bs) ! i)) \<longleftrightarrow>
   (\<forall>(p, c) \<in> set (zip (g # bs) bs). P p c)"
proof -
  have "(\<forall>(p, c) \<in> set (zip (g # bs) bs). P p c) \<longleftrightarrow> (\<forall>j < length bs. P ((g # bs) ! j) (bs ! j))"
    by (auto simp: set_zip)
  also have "\<dots> \<longleftrightarrow> (\<forall>i \<in> {1..<length (g # bs)}. P ((g # bs) ! (i - 1)) ((g # bs) ! i))"
  proof
    assume H: "\<forall>j < length bs. P ((g # bs) ! j) (bs ! j)"
    show "\<forall>i \<in> {1..<length (g # bs)}. P ((g # bs) ! (i - 1)) ((g # bs) ! i)"
    proof
      fix i assume "i \<in> {1..<length (g # bs)}"
      then obtain j where "i = Suc j" "j < length bs" by (cases i) auto
      with H show "P ((g # bs) ! (i - 1)) ((g # bs) ! i)" by simp
    qed
  next
    assume H: "\<forall>i \<in> {1..<length (g # bs)}. P ((g # bs) ! (i - 1)) ((g # bs) ! i)"
    show "\<forall>j < length bs. P ((g # bs) ! j) (bs ! j)"
    proof (intro allI impI)
      fix j assume "j < length bs"
      with H [rule_format, of "Suc j"] show "P ((g # bs) ! j) (bs ! j)" by simp
    qed
  qed
  finally show ?thesis by simp
qed

lemma nth_append_last [simp]:
  "(xs @ [x]) ! length xs = x"
  by (simp add: nth_append)

end
