(* ===== verification/JsValue.thy ===== *)
theory JsValue
  imports Prelude
begin

text \<open>
  The parts of the JavaScript runtime that the ledger's hashes and its genesis check
  depend on: the string form of an integral \<open>Number\<close> (what \<open>s + n\<close> appends),
  the string form of \<open>null\<close> (what \<open>null + s\<close> appends), and
  \<open>JSON.stringify\<close> of a string (ECMA-262 QuoteJSONString: the seven short escapes,
  \<open>\u00xx\<close> with lower-case hex for the other control characters, every other
  character verbatim). Characters are bytes here; for the ASCII text the ledger
  serialises (hex keys, decimal numbers, field names) they coincide with UTF-16 code
  units.

  Each printer comes with a reader and a round-trip lemma \<open>read (print x @ r) = (x, r)\<close>:
  the printers are prefix codes (numbers when followed by a non-digit), which is what
  makes the block serialisation injective.
\<close>

subsection \<open>Decimal numbers\<close>

definition digit_char :: "nat \<Rightarrow> char" where
  "digit_char d = char_of (48 + d)"

definition is_digit :: "char \<Rightarrow> bool" where
  "is_digit c \<longleftrightarrow> (48::nat) \<le> of_char c \<and> of_char c \<le> (57::nat)"

text \<open>The decimal digits of a non-negative integral \<open>Number\<close> below \<open>10^21\<close>
  (below that bound \<open>Number.prototype.toString\<close> uses no exponent).\<close>

function dec_str :: "int \<Rightarrow> string" where
  "dec_str n =
     (if n < 10 then [digit_char (nat n)] else dec_str (n div 10) @ [digit_char (nat (n mod 10))])"
  by pat_completeness auto
termination
  by (relation "measure nat") auto

declare dec_str.simps [simp del]

text \<open>\<open>String(i)\<close> for an integral \<open>Number\<close>, and for a counter held as \<open>nat\<close>.\<close>

definition int_str :: "int \<Rightarrow> string" where
  "int_str i = (if i < 0 then CHR ''-'' # dec_str (- i) else dec_str i)"

definition nat_str :: "nat \<Rightarrow> string" where
  "nat_str n = dec_str (int n)"

text \<open>\<open>String(null)\<close>, and the string conversion of a value that is \<open>null\<close> or a string.\<close>

definition js_string_of :: "string option \<Rightarrow> string" where
  "js_string_of v = (case v of None \<Rightarrow> ''null'' | Some s \<Rightarrow> s)"

definition read_nat :: "string \<Rightarrow> nat" where
  "read_nat s = foldl (\<lambda>n c. 10 * n + (of_char c - 48)) 0 s"

definition nondigit_start :: "string \<Rightarrow> bool" where
  "nondigit_start r \<longleftrightarrow> (case r of [] \<Rightarrow> True | c # _ \<Rightarrow> \<not> is_digit c)"

definition parse_nat :: "string \<Rightarrow> (nat \<times> string) option" where
  "parse_nat s =
     (let ds = takeWhile is_digit s
      in if ds = [] then None else Some (read_nat ds, dropWhile is_digit s))"

definition parse_int :: "string \<Rightarrow> (int \<times> string) option" where
  "parse_int s =
     (case s of
        [] \<Rightarrow> None
      | c # t \<Rightarrow>
          if c = CHR ''-'' then map_option (\<lambda>(n, r). (- int n, r)) (parse_nat t)
          else map_option (\<lambda>(n, r). (int n, r)) (parse_nat s))"

subsection \<open>JSON strings\<close>

definition hex_digit :: "nat \<Rightarrow> char" where
  "hex_digit d = (if d < 10 then char_of (48 + d) else char_of (87 + d))"

definition hex_val :: "char \<Rightarrow> nat option" where
  "hex_val c =
     (let n = of_char c
      in if 48 \<le> n \<and> n \<le> 57 then Some (n - 48)
         else if 97 \<le> n \<and> n \<le> 102 then Some (n - 87) else None)"

definition json_esc :: "char \<Rightarrow> string" where
  "json_esc c =
     (if c = CHR 0x22 then [CHR 0x5C, CHR 0x22]
      else if c = CHR 0x5C then [CHR 0x5C, CHR 0x5C]
      else if c = CHR 0x08 then [CHR 0x5C, CHR ''b'']
      else if c = CHR 0x0C then [CHR 0x5C, CHR ''f'']
      else if c = CHR 0x0A then [CHR 0x5C, CHR ''n'']
      else if c = CHR 0x0D then [CHR 0x5C, CHR ''r'']
      else if c = CHR 0x09 then [CHR 0x5C, CHR ''t'']
      else if of_char c < (32::nat) then
        [CHR 0x5C, CHR ''u'', CHR ''0'', CHR ''0'',
         hex_digit (of_char c div 16), hex_digit (of_char c mod 16)]
      else [c])"

text \<open>\<open>JSON.stringify(s)\<close> for a string \<open>s\<close>.\<close>

definition json_str :: "string \<Rightarrow> string" where
  "json_str s = CHR 0x22 # concat (map json_esc s) @ [CHR 0x22]"

text \<open>\<open>JSON.stringify\<close> of a value that is \<open>null\<close> or a string.\<close>

definition json_opt_str :: "string option \<Rightarrow> string" where
  "json_opt_str v = (case v of None \<Rightarrow> ''null'' | Some s \<Rightarrow> json_str s)"

text \<open>A JSON object member \<open>"key":\<close>, as \<open>JSON.stringify\<close> prints it.\<close>

definition json_key :: "string \<Rightarrow> string" where
  "json_key k = json_str k @ '':''"

text \<open>Readers, used only to prove the printers injective.\<close>

definition unesc :: "string \<Rightarrow> (char \<times> string) option" where
  "unesc r =
     (case r of
        [] \<Rightarrow> None
      | c # t \<Rightarrow>
          if c = CHR 0x22 then Some (CHR 0x22, t)
          else if c = CHR 0x5C then Some (CHR 0x5C, t)
          else if c = CHR ''b'' then Some (CHR 0x08, t)
          else if c = CHR ''f'' then Some (CHR 0x0C, t)
          else if c = CHR ''n'' then Some (CHR 0x0A, t)
          else if c = CHR ''r'' then Some (CHR 0x0D, t)
          else if c = CHR ''t'' then Some (CHR 0x09, t)
          else if c = CHR ''u'' then
            (case t of
               a # b # h # l # t' \<Rightarrow>
                 (case (hex_val a, hex_val b, hex_val h, hex_val l) of
                    (Some va, Some vb, Some vh, Some vl) \<Rightarrow>
                      Some (char_of (4096 * va + 256 * vb + 16 * vh + vl), t')
                  | _ \<Rightarrow> None)
             | _ \<Rightarrow> None)
          else None)"

function json_str_body :: "string \<Rightarrow> (string \<times> string) option" where
  "json_str_body [] = None"
| "json_str_body (c # r) =
     (if c = CHR 0x22 then Some ([], r)
      else if c = CHR 0x5C then
        (case unesc r of
           None \<Rightarrow> None
         | Some (d, r') \<Rightarrow> map_option (\<lambda>(s, r''). (d # s, r'')) (json_str_body r'))
      else map_option (\<lambda>(s, r'). (c # s, r')) (json_str_body r))"
  by pat_completeness auto
termination
  by (relation "measure length") (auto simp: unesc_def split: list.splits if_splits option.splits)

definition parse_str :: "string \<Rightarrow> (string \<times> string) option" where
  "parse_str s = (case s of c # r \<Rightarrow> if c = CHR 0x22 then json_str_body r else None | [] \<Rightarrow> None)"

definition strip_prefix :: "string \<Rightarrow> string \<Rightarrow> string option" where
  "strip_prefix p s = (if take (length p) s = p then Some (drop (length p) s) else None)"

definition parse_opt_str :: "string \<Rightarrow> (string option \<times> string) option" where
  "parse_opt_str s =
     (case strip_prefix ''null'' s of
        Some r \<Rightarrow> Some (None, r)
      | None \<Rightarrow> map_option (\<lambda>(v, r). (Some v, r)) (parse_str s))"

text \<open>\<open>JSON.stringify\<close> of an array: \<open>[\<close>, the elements joined by commas, \<open>]\<close>.\<close>

definition json_array :: "('a \<Rightarrow> string) \<Rightarrow> 'a list \<Rightarrow> string" where
  "json_array f xs =
     ''['' @ (case xs of
              [] \<Rightarrow> '']''
            | x # ys \<Rightarrow> f x @ concat (map (\<lambda>y. '','' @ f y) ys) @ '']'')"


subsection \<open>Round trips\<close>

lemma strip_prefix_append [simp]: "strip_prefix p (p @ r) = Some r"
  by (simp add: strip_prefix_def)

lemma strip_prefix_Nil [simp]: "strip_prefix [] s = Some s"
  by (simp add: strip_prefix_def)

lemma strip_prefix_Cons [simp]: "strip_prefix (c # p) (c # s) = strip_prefix p s"
  by (simp add: strip_prefix_def)

lemma of_char_digit_char: "d < 10 \<Longrightarrow> of_char (digit_char d) = (48 + d :: nat)"
  by (simp add: digit_char_def)

lemma digit_char_is_digit: "d < 10 \<Longrightarrow> is_digit (digit_char d)"
  by (simp add: is_digit_def of_char_digit_char)

lemma dec_str_digits: "c \<in> set (dec_str n) \<Longrightarrow> is_digit c"
proof (induction n rule: dec_str.induct)
  case (1 n)
  then show ?case
    by (cases "n < 10") (auto simp: dec_str.simps [of n] digit_char_is_digit nat_less_iff)
qed

lemma nat_str_digits: "c \<in> set (nat_str n) \<Longrightarrow> is_digit c"
  by (simp add: nat_str_def dec_str_digits)

lemma nat_str_nonempty: "nat_str n \<noteq> []"
  by (simp add: nat_str_def dec_str.simps [of "int n"])

lemma read_nat_snoc: "read_nat (xs @ [c]) = 10 * read_nat xs + (of_char c - 48)"
  by (simp add: read_nat_def)

lemma read_nat_dec_str: "0 \<le> n \<Longrightarrow> read_nat (dec_str n) = nat n"
proof (induction n rule: dec_str.induct)
  case (1 n)
  show ?case
  proof (cases "n < 10")
    case True
    with "1.prems" show ?thesis
      by (simp add: dec_str.simps [of n] read_nat_def of_char_digit_char nat_less_iff)
  next
    case False
    with "1.IH" have "read_nat (dec_str (n div 10)) = nat (n div 10)" by simp
    moreover have "10 * nat (n div 10) + nat (n mod 10) = nat n"
    proof -
      have d: "0 \<le> n div 10" "0 \<le> n mod 10" using False by simp_all
      have "int (10 * nat (n div 10) + nat (n mod 10)) = n" using d by simp
      then show ?thesis by (metis nat_int)
    qed
    ultimately show ?thesis
      using False by (simp add: dec_str.simps [of n] read_nat_snoc of_char_digit_char nat_less_iff)
  qed
qed

lemma read_nat_nat_str: "read_nat (nat_str n) = n"
  by (simp add: nat_str_def read_nat_dec_str)

lemma int_str_nat_str:
  "int_str i = (if i < 0 then CHR ''-'' # nat_str (nat (- i)) else nat_str (nat i))"
  by (simp add: int_str_def nat_str_def)

lemma nondigit_start_while:
  "nondigit_start r \<Longrightarrow> takeWhile is_digit r = [] \<and> dropWhile is_digit r = r"
  by (cases r) (simp_all add: nondigit_start_def)

lemma parse_nat_nat_str: "nondigit_start r \<Longrightarrow> parse_nat (nat_str n @ r) = Some (n, r)"
  using nat_str_digits [of _ n] nat_str_nonempty [of n]
  by (simp add: parse_nat_def takeWhile_append2 dropWhile_append2 nondigit_start_while
      read_nat_nat_str)

lemma nat_str_hd_not_minus: "nat_str n = c # t \<Longrightarrow> c \<noteq> CHR ''-''"
  using nat_str_digits [of c n] by (auto simp: is_digit_def)

lemma parse_int_int_str: "nondigit_start r \<Longrightarrow> parse_int (int_str i @ r) = Some (i, r)"
proof (cases "i < 0")
  case True
  assume r: "nondigit_start r"
  with True show ?thesis by (simp add: int_str_nat_str parse_int_def parse_nat_nat_str)
next
  case False
  assume r: "nondigit_start r"
  obtain c t where ct: "nat_str (nat i) = c # t"
    using nat_str_nonempty by (cases "nat_str (nat i)") auto
  have "parse_nat (nat_str (nat i) @ r) = Some (nat i, r)" using r by (rule parse_nat_nat_str)
  with False ct nat_str_hd_not_minus [OF ct] show ?thesis
    by (simp add: int_str_nat_str parse_int_def)
qed

lemma int_str_prefix_inj:
  "int_str i @ r = int_str j @ r' \<Longrightarrow> nondigit_start r \<Longrightarrow> nondigit_start r' \<Longrightarrow>
   i = j \<and> r = r'"
  by (rule reader_prefix_inj [where rd = parse_int and P = nondigit_start])
     (simp_all add: parse_int_int_str)

lemma nat_str_inj: "nat_str m = nat_str n \<Longrightarrow> m = n"
  by (metis read_nat_nat_str)

lemma hex_val_hex_digit: "d < 16 \<Longrightarrow> hex_val (hex_digit d) = Some d"
  by (simp add: hex_val_def hex_digit_def)

lemma json_str_body_esc:
  "json_str_body (json_esc c @ r) = map_option (\<lambda>(s, r'). (c # s, r')) (json_str_body r)"
proof -
  have z: "hex_val (CHR ''0'') = Some 0" by (simp add: hex_val_def)
  consider "c = CHR 0x22" | "c = CHR 0x5C" | "c = CHR 0x08" | "c = CHR 0x0C" | "c = CHR 0x0A"
    | "c = CHR 0x0D" | "c = CHR 0x09"
    | (ctl) "c \<notin> {CHR 0x22, CHR 0x5C, CHR 0x08, CHR 0x0C, CHR 0x0A, CHR 0x0D, CHR 0x09}"
        "of_char c < (32::nat)"
    | (plain) "c \<notin> {CHR 0x22, CHR 0x5C, CHR 0x08, CHR 0x0C, CHR 0x0A, CHR 0x0D, CHR 0x09}"
        "\<not> of_char c < (32::nat)"
    by blast
  then show ?thesis
  proof cases
    case ctl
    then have "of_char c div 16 < (16::nat)" by simp
    moreover have "char_of (16 * (of_char c div 16) + of_char c mod (16::nat)) = c" by simp
    ultimately show ?thesis using ctl z
      by (simp add: json_esc_def unesc_def hex_val_hex_digit)
  next
    case plain
    then have "c \<noteq> CHR 0x22" "c \<noteq> CHR 0x5C" by auto
    with plain show ?thesis by (simp add: json_esc_def)
  qed (simp_all add: json_esc_def unesc_def)
qed

lemma json_str_body_roundtrip:
  "json_str_body (concat (map json_esc s) @ CHR 0x22 # r) = Some (s, r)"
  by (induction s) (simp_all add: json_str_body_esc)


lemma parse_str_json_str: "parse_str (json_str s @ r) = Some (s, r)"
  by (simp add: parse_str_def json_str_def json_str_body_roundtrip)

lemma json_str_not_null: "strip_prefix ''null'' (json_str s @ r) = None"
  by (simp add: json_str_def strip_prefix_def)

lemma parse_opt_str_json_opt_str: "parse_opt_str (json_opt_str v @ r) = Some (v, r)"
  by (cases v)
    (simp add: parse_opt_str_def json_opt_str_def strip_prefix_def,
     simp add: parse_opt_str_def json_opt_str_def parse_str_json_str json_str_not_null)

lemma json_str_prefix_inj:
  "json_str s @ r = json_str s' @ r' \<Longrightarrow> s = s' \<and> r = r'"
  by (rule reader_prefix_inj [where rd = parse_str and P = "\<lambda>_. True"])
     (simp_all add: parse_str_json_str)

lemma json_opt_str_prefix_inj:
  "json_opt_str v @ r = json_opt_str v' @ r' \<Longrightarrow> v = v' \<and> r = r'"
  by (rule reader_prefix_inj [where rd = parse_opt_str and P = "\<lambda>_. True"])
     (simp_all add: parse_opt_str_json_opt_str)

text \<open>
  An array of a prefix code whose elements never start with \<open>]\<close> is a prefix code:
  induction on the elements after the first, each introduced by a comma.
\<close>

lemma json_array_tail_inj:
  assumes inj: "\<And>x y r r'. f x @ r = f y @ r' \<Longrightarrow> x = y \<and> r = r'"
  shows "concat (map (\<lambda>y. '','' @ f y) xs) @ '']'' @ r =
         concat (map (\<lambda>y. '','' @ f y) ys) @ '']'' @ r' \<Longrightarrow> xs = ys \<and> r = r'"
proof (induction xs arbitrary: ys)
  case Nil
  then show ?case by (cases ys) auto
next
  case (Cons x xs)
  then obtain y ys' where ys: "ys = y # ys'" by (cases ys) auto
  with Cons.prems have "f x @ (concat (map (\<lambda>y. '','' @ f y) xs) @ '']'' @ r) =
      f y @ (concat (map (\<lambda>y. '','' @ f y) ys') @ '']'' @ r')" by simp
  then have "x = y" and "concat (map (\<lambda>y. '','' @ f y) xs) @ '']'' @ r =
      concat (map (\<lambda>y. '','' @ f y) ys') @ '']'' @ r'" using inj by blast+
  with Cons.IH ys show ?case by blast
qed

lemma json_array_prefix_inj:
  assumes inj: "\<And>x y r r'. f x @ r = f y @ r' \<Longrightarrow> x = y \<and> r = r'"
    and start: "\<And>x. \<exists>s. f x = CHR ''{'' # s"
    and eq: "json_array f xs @ r = json_array f ys @ r'"
  shows "xs = ys \<and> r = r'"
proof (cases xs)
  case Nil
  show ?thesis
  proof (cases ys)
    case (Cons y ys')
    obtain s where "f y = CHR ''{'' # s" using start by blast
    with Nil Cons eq show ?thesis by (simp add: json_array_def)
  qed (use Nil eq in \<open>simp add: json_array_def\<close>)
next
  case (Cons x xs')
  obtain s where s: "f x = CHR ''{'' # s" using start by blast
  with eq Cons obtain y ys' where ys: "ys = y # ys'" by (cases ys) (auto simp: json_array_def)
  with Cons eq have "f x @ (concat (map (\<lambda>y. '','' @ f y) xs') @ '']'' @ r) =
      f y @ (concat (map (\<lambda>y. '','' @ f y) ys') @ '']'' @ r')" by (simp add: json_array_def)
  then have "x = y" and "concat (map (\<lambda>y. '','' @ f y) xs') @ '']'' @ r =
      concat (map (\<lambda>y. '','' @ f y) ys') @ '']'' @ r'" using inj by blast+
  with json_array_tail_inj [OF inj] Cons ys show ?thesis by blast
qed

lemma nondigit_start_comma [simp]: "nondigit_start (CHR '','' # r)"
  and nondigit_start_brace [simp]: "nondigit_start (CHR ''}'' # r)"
  and nondigit_start_bracket [simp]: "nondigit_start (CHR ''['' # r)"
  by (simp_all add: nondigit_start_def is_digit_def)

text \<open>The injectivity facts in the form the simplifier uses to peel a serialisation.\<close>

lemma nat_str_prefix_inj:
  "nat_str m @ r = nat_str n @ r' \<Longrightarrow> nondigit_start r \<Longrightarrow> nondigit_start r' \<Longrightarrow>
   m = n \<and> r = r'"
  by (rule reader_prefix_inj [where rd = parse_nat and P = nondigit_start])
     (simp_all add: parse_nat_nat_str)

lemma json_str_append_eq [simp]: "json_str s @ r = json_str s' @ r' \<longleftrightarrow> s = s' \<and> r = r'"
  using json_str_prefix_inj by blast

lemma json_str_eq [simp]: "json_str s = json_str s' \<longleftrightarrow> s = s'"
  using json_str_prefix_inj [of s "[]" s' "[]"] by auto

lemma json_opt_str_append_eq [simp]:
  "json_opt_str v @ r = json_opt_str v' @ r' \<longleftrightarrow> v = v' \<and> r = r'"
  using json_opt_str_prefix_inj by blast

lemma int_str_append_eq [simp]:
  "nondigit_start r \<Longrightarrow> nondigit_start r' \<Longrightarrow>
   int_str i @ r = int_str j @ r' \<longleftrightarrow> i = j \<and> r = r'"
  using int_str_prefix_inj by blast

lemma nat_str_append_eq [simp]:
  "nondigit_start r \<Longrightarrow> nondigit_start r' \<Longrightarrow>
   nat_str m @ r = nat_str n @ r' \<longleftrightarrow> m = n \<and> r = r'"
  using nat_str_prefix_inj by blast

lemma nat_str_eq [simp]: "nat_str m = nat_str n \<longleftrightarrow> m = n"
  using nat_str_inj by blast

end
