(* ===== verification/Transaction.thy ===== *)
theory Transaction
  imports JsValue
begin

text \<open>
  The class \<open>Transaction\<close> of \<open>src/src/blockchain.js\<close> (lines 6--50): a transfer
  record with an optional signature. \<open>fromAddress = None\<close> is the \<open>null\<close> sender of
  a mining reward; \<open>signature = None\<close> is an object that has no \<open>signature\<close>
  property yet (it is added by \<open>signTransaction\<close>, so \<open>JSON.stringify\<close> prints it
  last). The constructor's \<open>Date.now()\<close> is the explicit argument \<open>now\<close>.
  Signing mutates the object; here it returns the signed transaction or the error.
\<close>

record transaction =
  fromAddress :: "address option"
  toAddress :: address
  amount :: int
  timestamp :: int
  signature :: "string option"

definition new_Transaction :: "address option \<Rightarrow> address \<Rightarrow> int \<Rightarrow> int \<Rightarrow> transaction" where
  "new_Transaction fromA toA amt now =
     \<lparr>fromAddress = fromA, toAddress = toA, amount = amt, timestamp = now, signature = None\<rparr>"

text \<open>\<open>calculateHash()\<close>: SHA-256 of the JavaScript concatenation
  \<open>fromAddress + toAddress + amount + timestamp\<close>.\<close>

definition tx_calculateHash :: "'k crypto \<Rightarrow> transaction \<Rightarrow> string" where
  "tx_calculateHash C t =
     sha256 C (js_string_of (fromAddress t) @ toAddress t @ int_str (amount t) @
               int_str (timestamp t))"

definition signTransaction :: "'k crypto \<Rightarrow> 'k \<Rightarrow> transaction \<Rightarrow> error + transaction" where
  "signTransaction C signingKey t =
     (if Some (ec_public C signingKey) \<noteq> fromAddress t then Inl AuthorizationError
      else
        (let hashTx = tx_calculateHash C t;
             sig = ec_sign C signingKey hashTx
         in Inr (t\<lparr>signature := Some sig\<rparr>)))"

definition isValid :: "'k crypto \<Rightarrow> transaction \<Rightarrow> error + bool" where
  "isValid C t =
     (case fromAddress t of
        None \<Rightarrow> Inr True
      | Some pk \<Rightarrow>
          (case signature t of
             None \<Rightarrow> Inl MissingSignatureError
           | Some sg \<Rightarrow>
               if sg = [] then Inl MissingSignatureError
               else
                 (case ec_verify C pk (tx_calculateHash C t) sg of
                    None \<Rightarrow> Inl LibraryError
                  | Some ok \<Rightarrow> Inr ok)))"

text \<open>\<open>JSON.stringify\<close> of a transaction object: its own properties in creation order.\<close>

definition json_tx :: "transaction \<Rightarrow> string" where
  "json_tx t =
     ''{'' @ json_key ''fromAddress'' @ json_opt_str (fromAddress t) @
     '','' @ json_key ''toAddress'' @ json_str (toAddress t) @
     '','' @ json_key ''amount'' @ int_str (amount t) @
     '','' @ json_key ''timestamp'' @ int_str (timestamp t) @
     (case signature t of
        None \<Rightarrow> ''}''
      | Some s \<Rightarrow> '','' @ json_key ''signature'' @ json_str s @ ''}'')"

text \<open>The reader of \<open>json_tx\<close>, used to prove it injective.\<close>

definition parse_tx :: "string \<Rightarrow> (transaction \<times> string) option" where
  "parse_tx s = do {
     r \<leftarrow> strip_prefix (''{'' @ json_key ''fromAddress'') s;
     (f, r) \<leftarrow> parse_opt_str r;
     r \<leftarrow> strip_prefix ('','' @ json_key ''toAddress'') r;
     (t, r) \<leftarrow> parse_str r;
     r \<leftarrow> strip_prefix ('','' @ json_key ''amount'') r;
     (a, r) \<leftarrow> parse_int r;
     r \<leftarrow> strip_prefix ('','' @ json_key ''timestamp'') r;
     (ts, r) \<leftarrow> parse_int r;
     (case r of
        [] \<Rightarrow> None
      | c # r' \<Rightarrow>
          if c = CHR ''}'' then
            Some (\<lparr>fromAddress = f, toAddress = t, amount = a, timestamp = ts,
                    signature = None\<rparr>, r')
          else do {
            r \<leftarrow> strip_prefix ('','' @ json_key ''signature'') r;
            (sg, r) \<leftarrow> parse_str r;
            r \<leftarrow> strip_prefix ''}'' r;
            Some (\<lparr>fromAddress = f, toAddress = t, amount = a, timestamp = ts,
                    signature = Some sg\<rparr>, r)
          })
   }"

subsection \<open>Serialisation\<close>

lemma parse_tx_json_tx: "parse_tx (json_tx t @ r) = Some (t, r)"
  by (cases "signature t")
     (simp_all add: parse_tx_def json_tx_def parse_opt_str_json_opt_str parse_str_json_str
        parse_int_int_str)

lemma json_tx_prefix_inj: "json_tx t @ r = json_tx t' @ r' \<Longrightarrow> t = t' \<and> r = r'"
  by (rule reader_prefix_inj [where rd = parse_tx and P = "\<lambda>_. True"])
     (simp_all add: parse_tx_json_tx)

lemma json_tx_start: "\<exists>s. json_tx t = CHR ''{'' # s"
  by (simp add: json_tx_def)

subsection \<open>Signing and verification\<close>

lemma signTransaction_hash:
  "signTransaction C k t = Inr t' \<Longrightarrow> tx_calculateHash C t' = tx_calculateHash C t"
  by (auto simp: signTransaction_def tx_calculateHash_def Let_def split: if_splits)

lemma signTransaction_isValid:
  assumes "sound_signatures C" and "signTransaction C k t = Inr t'"
  shows "isValid C t' = Inr True"
proof -
  from assms(2) have "fromAddress t = Some (ec_public C k)"
    and "t' = t\<lparr>signature := Some (ec_sign C k (tx_calculateHash C t))\<rparr>"
    by (auto simp: signTransaction_def Let_def split: if_splits)
  with assms(1) show ?thesis
    by (simp add: isValid_def sound_signatures_def tx_calculateHash_def)
qed

text \<open>
  C13: With sound signatures, signTransaction fails with AuthorizationError exactly when
  the key does not own the sender address. Otherwise it adds the key's signature of the
  transaction hash, which isValid then accepts.
\<close>

theorem signTransaction_correct:
  assumes "sound_signatures C"
  shows "(case signTransaction C k t of
            Inl e \<Rightarrow> e = AuthorizationError \<and> fromAddress t \<noteq> Some (ec_public C k)
          | Inr t' \<Rightarrow> fromAddress t = Some (ec_public C k) \<and> isValid C t' = Inr True \<and>
                     t' = t\<lparr>signature := Some (ec_sign C k (tx_calculateHash C t))\<rparr>)"
proof (cases "signTransaction C k t")
  case (Inl e)
  then show ?thesis by (simp add: signTransaction_def Let_def split: if_splits)
next
  case (Inr t')
  with signTransaction_isValid [OF assms Inr] show ?thesis
    by (auto simp: signTransaction_def Let_def split: if_splits)
qed

text \<open>
  C25: isValid throws for a transaction with a sender, and only there. It throws
  MissingSignatureError when the signature is absent or empty. It throws the elliptic
  library's error when the sender is not a public key or the signature does not decode.
\<close>

theorem isValid_errors:
  "isValid C t = Inl e \<longleftrightarrow>
     (case fromAddress t of
        None \<Rightarrow> False
      | Some pk \<Rightarrow>
          (signature t \<in> {None, Some []} \<and> e = MissingSignatureError) \<or>
          (\<exists>sg. signature t = Some sg \<and> sg \<noteq> [] \<and>
                ec_verify C pk (tx_calculateHash C t) sg = None \<and> e = LibraryError))"
  by (auto simp: isValid_def split: option.splits)

text \<open>
  The hash input of a transaction is the plain concatenation of its fields, with no
  separator. Moving a digit from the recipient to the amount leaves it unchanged.
\<close>

lemma int_str_3_23: "int_str 3 = ''3''" "int_str 23 = ''23''"
  by code_simp+

lemma tx_hash_ambiguous:
  "tx_calculateHash C (new_Transaction (Some a) ''12'' 3 ts) =
   tx_calculateHash C (new_Transaction (Some a) ''1'' 23 ts)"
  by (simp add: tx_calculateHash_def new_Transaction_def js_string_of_def int_str_3_23)

text \<open>
  C15: The transaction hash concatenates the fields without separators, so a signature
  of a payment of 23 to ''1'' also validates a payment of 3 to ''12'' by the same sender
  at the same time.
\<close>

lemma signature_reusable:
  "isValid C (new_Transaction (Some a) ''1'' 23 ts\<lparr>signature := sg\<rparr>) =
   isValid C (new_Transaction (Some a) ''12'' 3 ts\<lparr>signature := sg\<rparr>)"
  using tx_hash_ambiguous [of C a ts]
  by (simp add: isValid_def tx_calculateHash_def new_Transaction_def split: option.splits)

end
