(* ===== verification/Block.thy ===== *)
theory Block
  imports Transaction
begin

text \<open>
  The class \<open>Block\<close> of \<open>src/src/blockchain.js\<close> (lines 52--103). The constructor
  computes the hash once with nonce 0; \<open>mineBlock\<close> then increments the nonce and
  recomputes the hash until the hash starts with \<open>difficulty\<close> zero characters. The
  loop has no bound: it is a \<open>partial_function\<close> in the option monad, \<open>None\<close>
  meaning that it never returns. \<open>hasValidTransactions\<close> propagates the exception of
  \<open>isValid\<close>, so it returns \<open>error + bool\<close>.
\<close>

record block =
  previousHash :: string
  timestamp :: int
  transactions :: "transaction list"
  nonce :: nat
  hash :: string

text \<open>\<open>JSON.stringify(this.transactions)\<close>.\<close>

definition json_txs :: "transaction list \<Rightarrow> string" where
  "json_txs txs = json_array json_tx txs"

text \<open>\<open>calculateHash()\<close>: SHA-256 of
  \<open>previousHash + timestamp + JSON.stringify(transactions) + nonce\<close>.\<close>

definition block_calculateHash :: "'k crypto \<Rightarrow> block \<Rightarrow> string" where
  "block_calculateHash C b =
     sha256 C (previousHash b @ int_str (timestamp b) @ json_txs (transactions b) @
               nat_str (nonce b))"

definition new_Block :: "'k crypto \<Rightarrow> int \<Rightarrow> transaction list \<Rightarrow> string \<Rightarrow> block" where
  "new_Block C ts txs prevHash =
     (let b = \<lparr>previousHash = prevHash, timestamp = ts, transactions = txs, nonce = 0,
               hash = []\<rparr>
      in b\<lparr>hash := block_calculateHash C b\<rparr>)"

text \<open>The loop condition of \<open>mineBlock\<close>, negated:
  \<open>hash.substring(0, difficulty) === Array(difficulty + 1).join('0')\<close>.\<close>

definition pow_ok :: "nat \<Rightarrow> string \<Rightarrow> bool" where
  "pow_ok difficulty h \<longleftrightarrow> take difficulty h = replicate difficulty (CHR ''0'')"

partial_function (option) mineBlock :: "'k crypto \<Rightarrow> nat \<Rightarrow> block \<Rightarrow> block option" where
  "mineBlock C difficulty b =
     (if pow_ok difficulty (hash b) then Some b
      else
        (let b' = b\<lparr>nonce := Suc (nonce b)\<rparr>
         in mineBlock C difficulty (b'\<lparr>hash := block_calculateHash C b'\<rparr>)))"

declare mineBlock.simps [code]

text \<open>The \<open>for ... of\<close> loop of \<open>hasValidTransactions\<close>, with its early return.\<close>

fun txs_valid :: "'k crypto \<Rightarrow> transaction list \<Rightarrow> error + bool" where
  "txs_valid C [] = Inr True"
| "txs_valid C (tx # txs) =
     (case isValid C tx of
        Inl e \<Rightarrow> Inl e
      | Inr ok \<Rightarrow> if \<not> ok then Inr False else txs_valid C txs)"

definition hasValidTransactions :: "'k crypto \<Rightarrow> block \<Rightarrow> error + bool" where
  "hasValidTransactions C b = txs_valid C (transactions b)"

text \<open>\<open>JSON.stringify\<close> of a block object: its properties in constructor order.\<close>

definition json_block :: "block \<Rightarrow> string" where
  "json_block b =
     ''{'' @ json_key ''previousHash'' @ json_str (previousHash b) @
     '','' @ json_key ''timestamp'' @ int_str (timestamp b) @
     '','' @ json_key ''transactions'' @ json_txs (transactions b) @
     '','' @ json_key ''nonce'' @ nat_str (nonce b) @
     '','' @ json_key ''hash'' @ json_str (hash b) @ ''}''"

text \<open>The block a mining search stops at when it stops at nonce \<open>n\<close>.\<close>

definition with_nonce :: "'k crypto \<Rightarrow> block \<Rightarrow> nat \<Rightarrow> block" where
  "with_nonce C b n = b\<lparr>nonce := n, hash := block_calculateHash C (b\<lparr>nonce := n\<rparr>)\<rparr>"

subsection \<open>Serialisation and hashing\<close>

lemma json_txs_append_eq [simp]:
  "json_txs xs @ r = json_txs ys @ r' \<longleftrightarrow> xs = ys \<and> r = r'"
  by (metis json_array_prefix_inj json_tx_prefix_inj json_tx_start json_txs_def)

lemma nondigit_start_json_txs [simp]: "nondigit_start (json_txs xs @ r)"
  by (simp add: json_txs_def json_array_def)

lemma json_block_eq: "json_block b = json_block b' \<longleftrightarrow> b = b'"
proof
  assume "json_block b = json_block b'"
  then show "b = b'"
    by (cases b, cases b') (simp add: json_block_def)
qed simp

lemma block_calculateHash_hash [simp]:
  "block_calculateHash C (b\<lparr>hash := h\<rparr>) = block_calculateHash C b"
  by (simp add: block_calculateHash_def)

lemma new_Block_fields [simp]:
  "previousHash (new_Block C ts txs p) = p"
  "timestamp (new_Block C ts txs p) = ts"
  "transactions (new_Block C ts txs p) = txs"
  "nonce (new_Block C ts txs p) = 0"
  by (simp_all add: new_Block_def)

lemma new_Block_consistent:
  "hash (new_Block C ts txs p) = block_calculateHash C (new_Block C ts txs p)"
  by (simp add: new_Block_def block_calculateHash_def)

lemma block_calculateHash_inj:
  assumes "inj (sha256 C)" and "block_calculateHash C b = block_calculateHash C b'"
    and "previousHash b = previousHash b'"
  shows "timestamp b = timestamp b' \<and> transactions b = transactions b' \<and> nonce b = nonce b'"
  using assms by (simp add: block_calculateHash_def inj_eq)

subsection \<open>The proof-of-work loop\<close>

lemma with_nonce_self: "hash b = block_calculateHash C b \<Longrightarrow> with_nonce C b (nonce b) = b"
  by (simp add: with_nonce_def)

lemma with_nonce_with_nonce [simp]: "with_nonce C (with_nonce C b m) n = with_nonce C b n"
  by (simp add: with_nonce_def block_calculateHash_def)

lemma with_nonce_fields [simp]:
  "previousHash (with_nonce C b n) = previousHash b"
  "timestamp (with_nonce C b n) = timestamp b"
  "transactions (with_nonce C b n) = transactions b"
  "nonce (with_nonce C b n) = n"
  "hash (with_nonce C b n) = block_calculateHash C (b\<lparr>nonce := n\<rparr>)"
  by (simp_all add: with_nonce_def)

lemma with_nonce_consistent:
  "hash (with_nonce C b n) = block_calculateHash C (with_nonce C b n)"
  by (simp add: with_nonce_def block_calculateHash_def)

lemma mineBlock_unfold:
  "mineBlock C d b =
     (if pow_ok d (hash b) then Some b else mineBlock C d (with_nonce C b (Suc (nonce b))))"
  by (subst mineBlock.simps) (simp add: with_nonce_def Let_def)

lemma mineBlock_finds:
  "hash b = block_calculateHash C b \<Longrightarrow>
   pow_ok d (block_calculateHash C (b\<lparr>nonce := nonce b + k\<rparr>)) \<Longrightarrow>
   \<exists>m \<le> k. mineBlock C d b = Some (with_nonce C b (nonce b + m))"
proof (induction k arbitrary: b)
  case 0
  then show ?case by (simp add: mineBlock_unfold with_nonce_self)
next
  case (Suc k)
  show ?case
  proof (cases "pow_ok d (hash b)")
    case True
    with Suc.prems show ?thesis by (auto simp: mineBlock_unfold with_nonce_self)
  next
    case False
    let ?b1 = "with_nonce C b (Suc (nonce b))"
    have "pow_ok d (block_calculateHash C (?b1\<lparr>nonce := nonce ?b1 + k\<rparr>))"
      using Suc.prems(2) by (simp add: with_nonce_def block_calculateHash_def)
    with Suc.IH [of ?b1] obtain m where "m \<le> k"
      and "mineBlock C d ?b1 = Some (with_nonce C b (Suc (nonce b) + m))"
      using with_nonce_consistent by fastforce
    with False show ?thesis
      by (intro exI [of _ "Suc m"]) (simp add: mineBlock_unfold)
  qed
qed

lemma block_calculateHash_with_nonce [simp]:
  "block_calculateHash C ((with_nonce C b k)\<lparr>nonce := m\<rparr>) = block_calculateHash C (b\<lparr>nonce := m\<rparr>)"
  by (simp add: with_nonce_def block_calculateHash_def)

lemma mineBlock_body:
  "(let b' = b\<lparr>nonce := Suc (nonce b)\<rparr> in f C d (b'\<lparr>hash := block_calculateHash C b'\<rparr>)) =
   f C d (with_nonce C b (Suc (nonce b)))"
  by (simp add: with_nonce_def Let_def)

lemma mineBlock_result:
  assumes "mineBlock C d b = Some b'" and "hash b = block_calculateHash C b"
  shows "\<exists>n \<ge> nonce b. b' = with_nonce C b n \<and> pow_ok d (hash b') \<and>
           (\<forall>m. nonce b \<le> m \<and> m < n \<longrightarrow> \<not> pow_ok d (block_calculateHash C (b\<lparr>nonce := m\<rparr>)))"
proof -
  have "hash b = block_calculateHash C b \<longrightarrow>
      (\<exists>n \<ge> nonce b. b' = with_nonce C b n \<and> pow_ok d (hash b') \<and>
        (\<forall>m. nonce b \<le> m \<and> m < n \<longrightarrow> \<not> pow_ok d (block_calculateHash C (b\<lparr>nonce := m\<rparr>))))"
  proof (rule mineBlock.raw_induct [where P = "\<lambda>C d b b'. hash b = block_calculateHash C b \<longrightarrow>
      (\<exists>n \<ge> nonce b. b' = with_nonce C b n \<and> pow_ok d (hash b') \<and>
        (\<forall>m. nonce b \<le> m \<and> m < n \<longrightarrow> \<not> pow_ok d (block_calculateHash C (b\<lparr>nonce := m\<rparr>))))",
      OF _ assms(1)])
    fix f C d b b'
    assume IH: "\<And>C d b b'. f C d b = Some b' \<Longrightarrow> hash b = block_calculateHash C b \<longrightarrow>
      (\<exists>n \<ge> nonce b. b' = with_nonce C b n \<and> pow_ok d (hash b') \<and>
        (\<forall>m. nonce b \<le> m \<and> m < n \<longrightarrow> \<not> pow_ok d (block_calculateHash C (b\<lparr>nonce := m\<rparr>))))"
      and body: "(if pow_ok d (hash b) then Some b
         else let b' = b\<lparr>nonce := Suc (nonce b)\<rparr>
              in f C d (b'\<lparr>hash := block_calculateHash C b'\<rparr>)) = Some b'"
    show "hash b = block_calculateHash C b \<longrightarrow>
      (\<exists>n \<ge> nonce b. b' = with_nonce C b n \<and> pow_ok d (hash b') \<and>
        (\<forall>m. nonce b \<le> m \<and> m < n \<longrightarrow> \<not> pow_ok d (block_calculateHash C (b\<lparr>nonce := m\<rparr>))))"
    proof
      assume cons: "hash b = block_calculateHash C b"
      show "\<exists>n \<ge> nonce b. b' = with_nonce C b n \<and> pow_ok d (hash b') \<and>
        (\<forall>m. nonce b \<le> m \<and> m < n \<longrightarrow> \<not> pow_ok d (block_calculateHash C (b\<lparr>nonce := m\<rparr>)))"
      proof (cases "pow_ok d (hash b)")
        case True
        with body cons show ?thesis by (auto simp: with_nonce_self)
      next
        case False
        let ?b1 = "with_nonce C b (Suc (nonce b))"
        from body False have "f C d ?b1 = Some b'" by (simp add: mineBlock_body)
        with IH [of C d ?b1 b'] obtain n where n: "Suc (nonce b) \<le> n" "b' = with_nonce C b n"
            "pow_ok d (hash b')"
            "\<forall>m. Suc (nonce b) \<le> m \<and> m < n \<longrightarrow> \<not> pow_ok d (block_calculateHash C (b\<lparr>nonce := m\<rparr>))"
          using with_nonce_consistent by auto
        have "\<not> pow_ok d (block_calculateHash C (b\<lparr>nonce := nonce b\<rparr>))"
          using False cons by simp
        with n have "\<forall>m. nonce b \<le> m \<and> m < n \<longrightarrow> \<not> pow_ok d (block_calculateHash C (b\<lparr>nonce := m\<rparr>))"
          by (metis Suc_leI le_neq_implies_less)
        with n show ?thesis by (intro exI [of _ n]) auto
      qed
    qed
  qed
  with assms(2) show ?thesis by blast
qed

text \<open>
  C9: If no nonce from the current one on yields a hash with the required leading zeros,
  mineBlock never returns.
\<close>

lemma mineBlock_none:
  fixes C :: "'k crypto"
  assumes "\<forall>n \<ge> nonce b. \<not> pow_ok d (block_calculateHash C (b\<lparr>nonce := n\<rparr>))"
    and "hash b = block_calculateHash C b"
  shows "mineBlock C d b = None"
proof -
  let ?cond = "\<lambda>(C :: 'k crypto) d b. (\<forall>n \<ge> nonce b. \<not> pow_ok d (block_calculateHash C (b\<lparr>nonce := n\<rparr>))) \<and>
                        hash b = block_calculateHash C b"
  have step: "\<not> ?cond C d b" if IH: "\<forall>C d b y. g C d b = Some y \<longrightarrow> \<not> ?cond C d b"
    and run: "(if pow_ok d (hash b) then Some b
        else let b' = b\<lparr>nonce := Suc (nonce b)\<rparr> in g C d (b'\<lparr>hash := block_calculateHash C b'\<rparr>)) =
        Some y" for g C d b y
  proof
    assume c: "?cond C d b"
    then have "\<not> pow_ok d (hash b)" by (metis order_refl block.update_convs(4) block.surjective)
    with run have "g C d (with_nonce C b (Suc (nonce b))) = Some y" by (simp add: mineBlock_body)
    moreover have "?cond C d (with_nonce C b (Suc (nonce b)))"
      using c with_nonce_consistent by auto
    ultimately show False using IH by blast
  qed
  have "\<forall>C d b y. mineBlock C d b = Some y \<longrightarrow> \<not> ?cond C d b"
    apply (rule mineBlock.fixp_induct [where P = "\<lambda>f. \<forall>C d b y. f C d b = Some y \<longrightarrow> \<not> ?cond C d b"])
    subgoal
      using option_admissible [where P = "\<lambda>x y. \<not> ?cond (fst (fst x)) (snd (fst x)) (snd x)"]
      by (simp add: split_paired_All)
    subgoal by simp
    subgoal using step by blast
    done
  with assms show ?thesis by (metis option.exhaust)
qed

lemma mineBlock_sound:
  assumes "mineBlock C d b = Some b'" and "hash b = block_calculateHash C b"
  shows "pow_ok d (hash b') \<and> hash b' = block_calculateHash C b' \<and>
         previousHash b' = previousHash b \<and> timestamp b' = timestamp b \<and>
         transactions b' = transactions b"
  using mineBlock_result [OF assms] with_nonce_consistent by auto

text \<open>
  C8: Start mineBlock on a block whose stored hash is its computed hash. If some nonce
  from the current one on meets the difficulty, the loop stops at the least such nonce,
  with the hash recomputed for it.
\<close>

theorem mineBlock_least:
  assumes cons: "hash b = block_calculateHash C b" and "nonce b \<le> n"
    and pow: "pow_ok d (block_calculateHash C (b\<lparr>nonce := n\<rparr>))"
  shows "mineBlock C d b =
    Some (with_nonce C b (LEAST m. nonce b \<le> m \<and> pow_ok d (block_calculateHash C (b\<lparr>nonce := m\<rparr>))))"
proof -
  from assms have "pow_ok d (block_calculateHash C (b\<lparr>nonce := nonce b + (n - nonce b)\<rparr>))" by simp
  with mineBlock_finds [OF cons] obtain m where run: "mineBlock C d b = Some (with_nonce C b (nonce b + m))"
    by blast
  from mineBlock_result [OF run cons] obtain k where "k \<ge> nonce b"
    and k: "with_nonce C b (nonce b + m) = with_nonce C b k"
    and powk: "pow_ok d (hash (with_nonce C b (nonce b + m)))"
    and below: "\<forall>j. nonce b \<le> j \<and> j < k \<longrightarrow> \<not> pow_ok d (block_calculateHash C (b\<lparr>nonce := j\<rparr>))"
    by blast
  have "(LEAST j. nonce b \<le> j \<and> pow_ok d (block_calculateHash C (b\<lparr>nonce := j\<rparr>))) = k"
  proof (rule Least_equality)
    show "nonce b \<le> k \<and> pow_ok d (block_calculateHash C (b\<lparr>nonce := k\<rparr>))"
      using \<open>k \<ge> nonce b\<close> powk k by simp
  next
    fix j assume "nonce b \<le> j \<and> pow_ok d (block_calculateHash C (b\<lparr>nonce := j\<rparr>))"
    with below show "k \<le> j" by (meson not_le)
  qed
  with run k show ?thesis by simp
qed

text \<open>
  C33: The proof of work asks for difficulty leading zeros of the hash. If the hash
  function never outputs that many characters (a SHA-256 hex digest has 64), mineBlock
  never returns. The constructor accepts any difficulty, so a difficulty above 64 hangs
  every mining call.
\<close>

theorem mineBlock_difficulty_exceeds_hash:
  assumes short: "\<forall>s. length (sha256 C s) < d" and cons: "hash b = block_calculateHash C b"
  shows "mineBlock C d b = None"
proof (cases "mineBlock C d b")
  case (Some b')
  let ?h = "block_calculateHash C b'"
  from mineBlock_sound [OF Some cons] have "pow_ok d ?h" by auto
  then have "length (take d ?h) = length (replicate d (CHR ''0''))" by (simp add: pow_ok_def)
  moreover have "length ?h < d" using short by (simp add: block_calculateHash_def)
  ultimately show ?thesis by simp
qed simp

subsection \<open>Transaction validity\<close>

lemma txs_valid_iff: "txs_valid C txs = Inr True \<longleftrightarrow> (\<forall>t \<in> set txs. isValid C t = Inr True)"
  by (induction txs) (auto split: sum.splits)

text \<open>
  C26: The loop of hasValidTransactions throws exactly when some transaction's isValid
  throws while every transaction before it is valid, and it throws that error.
\<close>

theorem txs_valid_first_error:
  "txs_valid C txs = Inl e \<longleftrightarrow>
     (\<exists>pre t post. txs = pre @ t # post \<and> (\<forall>u \<in> set pre. isValid C u = Inr True) \<and>
                  isValid C t = Inl e)"
proof (induction txs)
  case Nil
  then show ?case by simp
next
  case (Cons x xs)
  show ?case
    unfolding first_match_Cons Cons.IH [symmetric] by (simp split: sum.split)
qed

end
