(* ===== verification/Blockchain.thy ===== *)
theory Blockchain
  imports Block
begin

text \<open>
  The class \<open>Blockchain\<close> of \<open>src/src/blockchain.js\<close> (lines 105--246). Its state
  is the record \<open>blockchain\<close>; the two mutators \<open>addTransaction\<close> and
  \<open>minePendingTransactions\<close> return the new state, the queries read it. The two
  \<open>Date.now()\<close> calls of \<open>minePendingTransactions\<close> (reward transaction, then
  block) are its arguments \<open>txNow\<close> and \<open>blockNow\<close>. The loops of the queries are
  \<open>foldl\<close>s over blocks and transactions; the index loop of \<open>isChainValid\<close> is a
  \<open>function\<close> over \<open>i\<close> with measure \<open>length - i\<close>.
\<close>

record blockchain =
  chain :: "block list"
  difficulty :: nat
  pendingTransactions :: "transaction list"
  miningReward :: int

text \<open>\<open>Date.parse('2022-07-24')\<close>: midnight UTC, in milliseconds.\<close>

definition genesis_timestamp :: int where
  "genesis_timestamp = 1658620800000"

definition createGenesisBlock :: "'k crypto \<Rightarrow> block" where
  "createGenesisBlock C = new_Block C genesis_timestamp [] ''0''"

definition new_Blockchain :: "'k crypto \<Rightarrow> blockchain" where
  "new_Blockchain C =
     \<lparr>chain = [createGenesisBlock C], difficulty = 2, pendingTransactions = [],
      miningReward = 100\<rparr>"

text \<open>\<open>this.chain[this.chain.length - 1]\<close>: \<open>undefined\<close> (here \<open>None\<close>) on an
  empty chain.\<close>

definition getLatestBlock :: "blockchain \<Rightarrow> block option" where
  "getLatestBlock bc = (if chain bc = [] then None else Some (last (chain bc)))"

definition minePendingTransactions ::
  "'k crypto \<Rightarrow> int \<Rightarrow> int \<Rightarrow> address \<Rightarrow> blockchain \<Rightarrow> blockchain js_result" where
  "minePendingTransactions C txNow blockNow miningRewardAddress bc =
     (let rewardTx = new_Transaction None miningRewardAddress (miningReward bc) txNow;
          pending = pendingTransactions bc @ [rewardTx]
      in case getLatestBlock bc of
           None \<Rightarrow> Some (Inl TypeError)
         | Some latest \<Rightarrow>
             (let block = new_Block C blockNow pending (hash latest)
              in map_option
                   (\<lambda>mined. Inr (bc\<lparr>chain := chain bc @ [mined], pendingTransactions := []\<rparr>))
                   (mineBlock C (difficulty bc) block)))"

text \<open>The body of the inner loop of \<open>getBalanceOfAddress\<close>.\<close>

definition replay_tx :: "address \<Rightarrow> int \<Rightarrow> transaction \<Rightarrow> int" where
  "replay_tx address balance tr =
     (let balance' = (if fromAddress tr = Some address then balance - amount tr else balance)
      in if toAddress tr = address then balance' + amount tr else balance')"

definition getBalanceOfAddress :: "blockchain \<Rightarrow> address \<Rightarrow> int" where
  "getBalanceOfAddress bc address =
     foldl (\<lambda>balance block. foldl (replay_tx address) balance (transactions block)) 0 (chain bc)"

definition getAllTransactionsForWallet :: "blockchain \<Rightarrow> address \<Rightarrow> transaction list" where
  "getAllTransactionsForWallet bc address =
     foldl (\<lambda>txs block.
              foldl (\<lambda>txs tx. if fromAddress tx = Some address \<or> toAddress tx = address
                              then txs @ [tx] else txs)
                    txs (transactions block))
           [] (chain bc)"

text \<open>\<open>arr.reduce((prev, curr) => prev + curr)\<close> without an initial value: a
  \<open>TypeError\<close> on an empty array.\<close>

definition js_reduce_add :: "int list \<Rightarrow> error + int" where
  "js_reduce_add xs = (case xs of [] \<Rightarrow> Inl TypeError | x # ys \<Rightarrow> Inr (foldl (+) x ys))"

definition addTransaction :: "'k crypto \<Rightarrow> transaction \<Rightarrow> blockchain \<Rightarrow> error + blockchain" where
  "addTransaction C transaction bc =
     (case fromAddress transaction of
        None \<Rightarrow> Inl MalformedTransactionError
      | Some sender \<Rightarrow>
          if sender = [] \<or> toAddress transaction = [] then Inl MalformedTransactionError
          else
            (case isValid C transaction of
               Inl e \<Rightarrow> Inl e
             | Inr ok \<Rightarrow>
                 if \<not> ok then Inl InvalidSignatureError
                 else if amount transaction \<le> 0 then Inl NonPositiveAmountError
                 else
                   (let walletBalance = getBalanceOfAddress bc sender
                    in if walletBalance < amount transaction then Inl InsufficientFundsError
                       else
                         (let pendingTxForWallet =
                                filter (\<lambda>tx. fromAddress tx = fromAddress transaction)
                                  (pendingTransactions bc)
                          in if pendingTxForWallet \<noteq> [] then
                               (case js_reduce_add (map amount pendingTxForWallet) of
                                  Inl e \<Rightarrow> Inl e
                                | Inr totalPendingAmount \<Rightarrow>
                                    if totalPendingAmount + amount transaction > walletBalance
                                    then Inl OverspendError
                                    else Inr (bc\<lparr>pendingTransactions :=
                                                 pendingTransactions bc @ [transaction]\<rparr>))
                             else Inr (bc\<lparr>pendingTransactions :=
                                          pendingTransactions bc @ [transaction]\<rparr>)))))"

text \<open>The \<open>for\<close> loop of \<open>isChainValid\<close>, from index \<open>i\<close>.\<close>

function isChainValid_from :: "'k crypto \<Rightarrow> block list \<Rightarrow> nat \<Rightarrow> error + bool" where
  "isChainValid_from C blocks i =
     (if i < length blocks then
        (let currentBlock = blocks ! i;
             previousBlock = blocks ! (i - 1)
         in if hash previousBlock \<noteq> previousHash currentBlock then Inr False
            else
              (case hasValidTransactions C currentBlock of
                 Inl e \<Rightarrow> Inl e
               | Inr ok \<Rightarrow>
                   if \<not> ok then Inr False
                   else if hash currentBlock \<noteq> block_calculateHash C currentBlock then Inr False
                   else isChainValid_from C blocks (Suc i)))
      else Inr True)"
  by pat_completeness auto
termination
  by (relation "measure (\<lambda>(C, blocks, i). length blocks - i)") auto

text \<open>\<open>JSON.stringify(this.chain[0])\<close> is \<open>undefined\<close> on an empty chain, which
  differs from the genesis block's JSON.\<close>

definition isChainValid :: "'k crypto \<Rightarrow> blockchain \<Rightarrow> error + bool" where
  "isChainValid C bc =
     (case chain bc of
        [] \<Rightarrow> Inr False
      | b0 # _ \<Rightarrow>
          if json_block (createGenesisBlock C) \<noteq> json_block b0 then Inr False
          else isChainValid_from C (chain bc) 1)"

subsection \<open>Reference definitions\<close>

text \<open>
  What the queries and the validity check promise, stated without their loops: the
  transactions of the chain in order, the net effect of one transaction on an address,
  the amount an address has committed in the pending buffer, and chain validity as a
  property of every adjacent pair of blocks.
\<close>

definition all_transactions :: "blockchain \<Rightarrow> transaction list" where
  "all_transactions bc = concat (map transactions (chain bc))"

definition tx_net :: "address \<Rightarrow> transaction \<Rightarrow> int" where
  "tx_net a t = (if toAddress t = a then amount t else 0) - (if fromAddress t = Some a then amount t else 0)"

definition pending_spent :: "blockchain \<Rightarrow> address \<Rightarrow> int" where
  "pending_spent bc a =
     sum_list (map amount (filter (\<lambda>tx. fromAddress tx = Some a) (pendingTransactions bc)))"

definition block_ok :: "'k crypto \<Rightarrow> block \<Rightarrow> block \<Rightarrow> bool" where
  "block_ok C previousBlock currentBlock \<longleftrightarrow>
     hash previousBlock = previousHash currentBlock \<and>
     hasValidTransactions C currentBlock = Inr True \<and>
     hash currentBlock = block_calculateHash C currentBlock"

definition chain_valid_spec :: "'k crypto \<Rightarrow> block list \<Rightarrow> bool" where
  "chain_valid_spec C blocks \<longleftrightarrow>
     blocks \<noteq> [] \<and> hd blocks = createGenesisBlock C \<and>
     (\<forall>i \<in> {1..<length blocks}. block_ok C (blocks ! (i - 1)) (blocks ! i))"

declare isChainValid_from.simps [simp del]

subsection \<open>Balances and wallet history\<close>

lemma replay_tx_net: "replay_tx a bal t = bal + tx_net a t"
  by (simp add: replay_tx_def tx_net_def Let_def)

lemma getBalanceOfAddress_net:
  "getBalanceOfAddress bc a = sum_list (map (tx_net a) (all_transactions bc))"
proof -
  have inner: "foldl (replay_tx a) bal txs = bal + sum_list (map (tx_net a) txs)" for bal txs
    using foldl_add_shift [of "tx_net a" bal txs] by (simp add: replay_tx_net [abs_def])
  have "foldl (\<lambda>bal blk. foldl (replay_tx a) bal (transactions blk)) b bs =
        b + sum_list (map (tx_net a) (concat (map transactions bs)))" for b bs
    by (induction bs arbitrary: b) (simp_all add: inner add.assoc)
  from this [of 0 "chain bc"] show ?thesis
    by (simp add: getBalanceOfAddress_def all_transactions_def)
qed

text \<open>
  C12: getBalanceOfAddress is the total an address received minus the total it sent,
  over all transactions of the chain.
\<close>

theorem getBalanceOfAddress_replay:
  "getBalanceOfAddress bc a =
     sum_list (map amount (filter (\<lambda>t. toAddress t = a) (all_transactions bc))) -
     sum_list (map amount (filter (\<lambda>t. fromAddress t = Some a) (all_transactions bc)))"
proof -
  have "tx_net a = (\<lambda>t. (if toAddress t = a then amount t else 0) -
                         (if fromAddress t = Some a then amount t else 0))"
    by (rule ext) (simp add: tx_net_def)
  then show ?thesis
    by (simp add: getBalanceOfAddress_net sum_list_subtractf sum_list_map_filter')
qed

lemma getBalanceOfAddress_append_block:
  "getBalanceOfAddress (bc\<lparr>chain := chain bc @ [b]\<rparr>) a =
   getBalanceOfAddress bc a + sum_list (map (tx_net a) (transactions b))"
  by (simp add: getBalanceOfAddress_net all_transactions_def)

lemma new_Blockchain_fields [simp]:
  "getBalanceOfAddress (new_Blockchain C) a = 0" "pendingTransactions (new_Blockchain C) = []"
  "miningReward (new_Blockchain C) = 100" "length (chain (new_Blockchain C)) = 1"
  by (simp_all add: getBalanceOfAddress_def new_Blockchain_def createGenesisBlock_def)

lemma getBalanceOfAddress_pending [simp]:
  "getBalanceOfAddress (bc\<lparr>pendingTransactions := p\<rparr>) a = getBalanceOfAddress bc a"
  by (simp add: getBalanceOfAddress_def)

text \<open>
  C14: getAllTransactionsForWallet returns the transactions of the chain that the
  address sent or received, in chain order.
\<close>

theorem getAllTransactionsForWallet_filter:
  "getAllTransactionsForWallet bc a =
     filter (\<lambda>tx. fromAddress tx = Some a \<or> toAddress tx = a) (all_transactions bc)"
proof -
  have "foldl (\<lambda>txs blk. foldl (\<lambda>txs tx. if fromAddress tx = Some a \<or> toAddress tx = a
                                         then txs @ [tx] else txs) txs (transactions blk)) acc bs =
        acc @ filter (\<lambda>tx. fromAddress tx = Some a \<or> toAddress tx = a) (concat (map transactions bs))"
    for acc and bs :: "block list"
    by (induction bs arbitrary: acc) (simp_all add: foldl_snoc_filter)
  from this [of "[]" "chain bc"] show ?thesis
    by (simp add: getAllTransactionsForWallet_def all_transactions_def)
qed

subsection \<open>Admission of a transaction\<close>

lemma js_reduce_add_sum: "xs \<noteq> [] \<Longrightarrow> js_reduce_add xs = Inr (sum_list xs)"
  by (cases xs) (simp_all add: js_reduce_add_def foldl_plus_sum_list)

text \<open>
  C4: For a well-formed transaction with a valid signature, addTransaction rejects a
  non-positive amount, then an amount above the sender's balance, then an amount that
  together with the sender's pending spending exceeds the balance. Otherwise it appends
  the transaction to the pending buffer and changes nothing else.
\<close>

theorem addTransaction_accepts:
  assumes "fromAddress t = Some s" and "s \<noteq> []" and "toAddress t \<noteq> []"
    and "isValid C t = Inr True"
  shows "addTransaction C t bc =
    (if amount t \<le> 0 then Inl NonPositiveAmountError
     else if getBalanceOfAddress bc s < amount t then Inl InsufficientFundsError
     else if getBalanceOfAddress bc s < pending_spent bc s + amount t then Inl OverspendError
     else Inr (bc\<lparr>pendingTransactions := pendingTransactions bc @ [t]\<rparr>))"
  using assms
  by (auto simp: addTransaction_def pending_spent_def js_reduce_add_sum Let_def)

lemma addTransaction_ok:
  assumes "fromAddress t = Some s" and "s \<noteq> []" and "toAddress t \<noteq> []"
    and "isValid C t = Inr True" and "0 < amount t" and "amount t \<le> getBalanceOfAddress bc s"
    and "pending_spent bc s + amount t \<le> getBalanceOfAddress bc s"
  shows "addTransaction C t bc = Inr (bc\<lparr>pendingTransactions := pendingTransactions bc @ [t]\<rparr>)"
  using assms by (auto simp: addTransaction_def pending_spent_def js_reduce_add_sum Let_def)

text \<open>
  C29: A transfer whose sender is not the hex encoding of a public key, or whose signature
  is not DER, makes addTransaction throw the elliptic library's own error. The spec's
  taxonomy has InvalidSignatureError for a signature that fails verification, and no
  error of this kind.
\<close>

theorem addTransaction_undecodable_key:
  assumes "fromAddress t = Some s" and "s \<noteq> []" and "toAddress t \<noteq> []"
    and "signature t = Some sg" and "sg \<noteq> []"
    and "ec_verify C s (tx_calculateHash C t) sg = None"
  shows "addTransaction C t bc = Inl LibraryError"
  using assms by (simp add: addTransaction_def isValid_def)

subsection \<open>Chain validity\<close>

lemma isChainValid_from_iff:
  "0 < i \<Longrightarrow> isChainValid_from C bs i = Inr True \<longleftrightarrow>
     (\<forall>j \<in> {i..<length bs}. block_ok C (bs ! (j - 1)) (bs ! j))"
proof (induction C bs i rule: isChainValid_from.induct)
  case (1 C bs i)
  show ?case
  proof (cases "i < length bs")
    case True
    have split: "{i..<length bs} = insert i {Suc i..<length bs}" using True by auto
    from "1.IH" [OF True refl refl] "1.prems" True show ?thesis
      by (subst isChainValid_from.simps)
         (auto simp: Let_def block_ok_def split split: sum.splits)
  next
    case False
    then show ?thesis by (subst isChainValid_from.simps) simp
  qed
qed

lemma isChainValid_iff:
  "isChainValid C bc = Inr True \<longleftrightarrow> chain_valid_spec C (chain bc)"
  by (cases "chain bc")
     (auto simp: isChainValid_def chain_valid_spec_def isChainValid_from_iff json_block_eq)

text \<open>
  C19: isChainValid() returns false, without throwing, when the first block is not the
  genesis block that the constructor builds; the JSON comparison it uses is exact
  because JSON.stringify of blocks is injective.
\<close>

theorem isChainValid_rejects_foreign_genesis:
  "chain bc = b0 # bs \<Longrightarrow> b0 \<noteq> createGenesisBlock C \<Longrightarrow> isChainValid C bc = Inr False"
  by (simp add: isChainValid_def json_block_eq)

text \<open>
  C27: isChainValid() returns true exactly for a chain that starts with the
  constructor's genesis block and where each adjacent pair of blocks is linked by hash,
  has only valid transactions in the later block, and stores that block's computed hash.
\<close>

theorem isChainValid_pairs:
  "isChainValid C bc = Inr True \<longleftrightarrow>
     (\<exists>bs. chain bc = createGenesisBlock C # bs \<and>
        (\<forall>(p, c) \<in> set (zip (chain bc) bs).
           hash p = previousHash c \<and> hasValidTransactions C c = Inr True \<and>
           hash c = block_calculateHash C c))"
proof (cases "chain bc")
  case Nil
  then show ?thesis by (simp add: isChainValid_iff chain_valid_spec_def)
next
  case (Cons g bs)
  have "chain_valid_spec C (g # bs) \<longleftrightarrow>
      g = createGenesisBlock C \<and> (\<forall>(p, c) \<in> set (zip (g # bs) bs). block_ok C p c)"
    unfolding chain_valid_spec_def chain_pairs by simp
  with Cons show ?thesis by (simp add: isChainValid_iff block_ok_def)
qed

lemma chain_valid_spec_snoc:
  "bs \<noteq> [] \<Longrightarrow>
   chain_valid_spec C (bs @ [b]) \<longleftrightarrow> chain_valid_spec C bs \<and> block_ok C (last bs) b"
proof -
  assume ne: "bs \<noteq> []"
  have last: "(bs @ [b]) ! (length bs - 1) = last bs" using ne by (simp add: nth_append last_conv_nth)
  have pairs: "(\<forall>i \<in> {1..<length (bs @ [b])}. block_ok C ((bs @ [b]) ! (i - 1)) ((bs @ [b]) ! i)) \<longleftrightarrow>
      (\<forall>i \<in> {1..<length bs}. block_ok C (bs ! (i - 1)) (bs ! i)) \<and> block_ok C (last bs) b"
    (is "?l \<longleftrightarrow> ?r")
  proof
    assume l: ?l
    have "Suc 0 \<le> length bs" using ne by (cases bs) auto
    then have "block_ok C (last bs) b" using l [rule_format, of "length bs"] last by simp
    moreover have "block_ok C (bs ! (i - 1)) (bs ! i)" if "i \<in> {1..<length bs}" for i
    proof -
      have "i - 1 < length bs" "i < length bs" using that by auto
      then show ?thesis using l [rule_format, of i] that by (simp add: nth_append)
    qed
    ultimately show ?r by blast
  next
    assume r: ?r
    show ?l
    proof
      fix i assume "i \<in> {1..<length (bs @ [b])}"
      then consider "i \<in> {1..<length bs}" | "i = length bs" by fastforce
      then show "block_ok C ((bs @ [b]) ! (i - 1)) ((bs @ [b]) ! i)"
        by cases (use r last in \<open>auto simp: nth_append\<close>)
    qed
  qed
  with ne show ?thesis by (simp add: chain_valid_spec_def)
qed

subsection \<open>Effects of the two mutators\<close>

lemma addTransaction_Inr:
  assumes "addTransaction C t bc = Inr bc'"
  shows "\<exists>s. fromAddress t = Some s \<and> isValid C t = Inr True \<and> 0 < amount t \<and>
    pending_spent bc s + amount t \<le> getBalanceOfAddress bc s \<and>
    bc' = bc\<lparr>pendingTransactions := pendingTransactions bc @ [t]\<rparr>"
  using assms
  by (auto simp: addTransaction_def Let_def pending_spent_def js_reduce_add_sum
      split: option.splits if_splits sum.splits)

lemma minePendingTransactions_Inr:
  assumes "minePendingTransactions C txNow blockNow a bc = Some (Inr bc')"
  shows "\<exists>mined. chain bc \<noteq> [] \<and>
    mineBlock C (difficulty bc)
      (new_Block C blockNow (pendingTransactions bc @ [new_Transaction None a (miningReward bc) txNow])
         (hash (last (chain bc)))) = Some mined \<and>
    bc' = bc\<lparr>chain := chain bc @ [mined], pendingTransactions := []\<rparr>"
  using assms
  by (auto simp: minePendingTransactions_def getLatestBlock_def Let_def split: if_splits)

lemma mined_block:
  assumes "mineBlock C d (new_Block C ts txs p) = Some mined"
  shows "previousHash mined = p \<and> transactions mined = txs \<and>
         hash mined = block_calculateHash C mined \<and> pow_ok d (hash mined)"
  using mineBlock_sound [OF assms new_Block_consistent] by auto

lemma sum_tx_net:
  "sum_list (map (tx_net a) txs) =
     sum_list (map amount (filter (\<lambda>t. toAddress t = a) txs)) -
     sum_list (map amount (filter (\<lambda>t. fromAddress t = Some a) txs))"
  by (induction txs) (auto simp: tx_net_def)

lemma minePendingTransactions_balance:
  assumes "minePendingTransactions C txNow blockNow a bc = Some (Inr bc')"
  shows "getBalanceOfAddress bc' x =
    getBalanceOfAddress bc x + sum_list (map (tx_net x) (pendingTransactions bc)) +
    (if x = a then miningReward bc else 0)"
proof -
  from minePendingTransactions_Inr [OF assms] obtain mined where
    run: "mineBlock C (difficulty bc)
      (new_Block C blockNow (pendingTransactions bc @ [new_Transaction None a (miningReward bc) txNow])
         (hash (last (chain bc)))) = Some mined"
    and bc': "bc' = bc\<lparr>chain := chain bc @ [mined], pendingTransactions := []\<rparr>" by blast
  from mined_block [OF run] have "transactions mined =
      pendingTransactions bc @ [new_Transaction None a (miningReward bc) txNow]" by blast
  with bc' show ?thesis
    by (simp add: getBalanceOfAddress_append_block tx_net_def new_Transaction_def)
qed

text \<open>
  C11: A successful minePendingTransactions appends one block to the chain and empties
  the pending buffer. The block holds the pending transactions followed by the reward
  transaction, links to the previous latest block, and has a consistent hash that meets
  the difficulty. Every balance changes by the net effect of the pending transactions,
  plus the reward for the miner.
\<close>

theorem minePendingTransactions_result:
  assumes "minePendingTransactions C txNow blockNow a bc = Some (Inr bc')"
  shows "\<exists>mined. chain bc' = chain bc @ [mined] \<and> pendingTransactions bc' = [] \<and>
    difficulty bc' = difficulty bc \<and> miningReward bc' = miningReward bc \<and>
    previousHash mined = hash (last (chain bc)) \<and> timestamp mined = blockNow \<and>
    transactions mined = pendingTransactions bc @ [new_Transaction None a (miningReward bc) txNow] \<and>
    hash mined = block_calculateHash C mined \<and> pow_ok (difficulty bc) (hash mined) \<and>
    (\<forall>x. getBalanceOfAddress bc' x = getBalanceOfAddress bc x +
           sum_list (map (tx_net x) (pendingTransactions bc)) + (if x = a then miningReward bc else 0))"
proof -
  from minePendingTransactions_Inr [OF assms] obtain mined where
    run: "mineBlock C (difficulty bc)
      (new_Block C blockNow (pendingTransactions bc @ [new_Transaction None a (miningReward bc) txNow])
         (hash (last (chain bc)))) = Some mined"
    and bc': "bc' = bc\<lparr>chain := chain bc @ [mined], pendingTransactions := []\<rparr>" by blast
  from mineBlock_sound [OF run new_Block_consistent] minePendingTransactions_balance [OF assms] bc'
  show ?thesis by (intro exI [of _ mined]) auto
qed

end
