(* ===== verification/Ledger.thy ===== *)
theory Ledger
  imports Blockchain
begin

text \<open>
  The ledger as a state machine. A single actor calls the two mutators of
  \<open>Blockchain\<close> in any order with any arguments (spec section 5: mutations are
  serialised); a call that throws leaves the state as it was, so only successful calls
  are steps. The reachable states are those of a \<open>new Blockchain()\<close> after any
  sequence of steps. \<open>ledger_inv\<close> is the invariant they all satisfy: the chain is
  valid in the sense of \<open>isChainValid\<close>, every pending transaction verifies and moves
  a positive amount, the mining reward is not negative, and no address has committed in
  the pending buffer more than its mined balance.
\<close>

inductive ledger_step :: "'k crypto \<Rightarrow> blockchain \<Rightarrow> blockchain \<Rightarrow> bool" for C where
  add: "addTransaction C t bc = Inr bc' \<Longrightarrow> ledger_step C bc bc'"
| mine: "minePendingTransactions C txNow blockNow a bc = Some (Inr bc') \<Longrightarrow> ledger_step C bc bc'"

inductive reachable :: "'k crypto \<Rightarrow> blockchain \<Rightarrow> bool" for C where
  init: "reachable C (new_Blockchain C)"
| step: "reachable C bc \<Longrightarrow> ledger_step C bc bc' \<Longrightarrow> reachable C bc'"

definition ledger_inv :: "'k crypto \<Rightarrow> blockchain \<Rightarrow> bool" where
  "ledger_inv C bc \<longleftrightarrow>
     chain_valid_spec C (chain bc) \<and>
     (\<forall>t \<in> set (pendingTransactions bc). isValid C t = Inr True \<and> 0 < amount t) \<and>
     0 \<le> miningReward bc \<and>
     (\<forall>a. pending_spent bc a \<le> getBalanceOfAddress bc a)"

inductive_cases ledger_stepE: "ledger_step C bc bc'"

lemma ledger_inv_init: "ledger_inv C (new_Blockchain C)"
  by (simp add: ledger_inv_def new_Blockchain_def chain_valid_spec_def pending_spent_def
      getBalanceOfAddress_def createGenesisBlock_def)

lemma pending_spent_snoc:
  "pending_spent (bc\<lparr>pendingTransactions := pendingTransactions bc @ [t]\<rparr>) a =
   pending_spent bc a + (if fromAddress t = Some a then amount t else 0)"
  by (simp add: pending_spent_def)

lemma addTransaction_inv:
  assumes "ledger_inv C bc" and "addTransaction C t bc = Inr bc'"
  shows "ledger_inv C bc'"
proof -
  from addTransaction_Inr [OF assms(2)] obtain s where s: "fromAddress t = Some s"
    and ok: "isValid C t = Inr True" "0 < amount t"
    and funds: "pending_spent bc s + amount t \<le> getBalanceOfAddress bc s"
    and bc': "bc' = bc\<lparr>pendingTransactions := pendingTransactions bc @ [t]\<rparr>" by blast
  have "pending_spent bc' a \<le> getBalanceOfAddress bc' a" for a
    using assms(1) funds s by (cases "a = s") (auto simp: bc' pending_spent_snoc ledger_inv_def)
  with assms(1) ok show ?thesis by (auto simp: ledger_inv_def bc')
qed

lemma received_nonneg:
  "(\<forall>t \<in> set txs. 0 < amount t) \<Longrightarrow>
   0 \<le> sum_list (map amount (filter (\<lambda>t. toAddress t = a) txs))"
  by (induction txs) auto

lemma minePendingTransactions_inv:
  assumes inv: "ledger_inv C bc"
    and run: "minePendingTransactions C txNow blockNow a bc = Some (Inr bc')"
  shows "ledger_inv C bc'"
proof -
  let ?reward = "new_Transaction None a (miningReward bc) txNow"
  from minePendingTransactions_Inr [OF run] obtain mined where ne: "chain bc \<noteq> []"
    and mb: "mineBlock C (difficulty bc)
      (new_Block C blockNow (pendingTransactions bc @ [?reward]) (hash (last (chain bc)))) = Some mined"
    and bc': "bc' = bc\<lparr>chain := chain bc @ [mined], pendingTransactions := []\<rparr>" by blast
  from mined_block [OF mb] have m: "previousHash mined = hash (last (chain bc))"
    "transactions mined = pendingTransactions bc @ [?reward]"
    "hash mined = block_calculateHash C mined" by auto
  have "isValid C ?reward = Inr True" by (simp add: isValid_def new_Transaction_def)
  with inv m have "hasValidTransactions C mined = Inr True"
    by (auto simp: hasValidTransactions_def txs_valid_iff ledger_inv_def)
  with m have "block_ok C (last (chain bc)) mined" by (simp add: block_ok_def)
  with inv ne have valid: "chain_valid_spec C (chain bc')"
    by (simp add: bc' chain_valid_spec_snoc ledger_inv_def)
  have "0 \<le> getBalanceOfAddress bc' x" for x
  proof -
    have "0 \<le> getBalanceOfAddress bc x - pending_spent bc x"
      using inv by (simp add: ledger_inv_def)
    moreover have "0 \<le> sum_list (map amount (filter (\<lambda>t. toAddress t = x) (pendingTransactions bc)))"
      using inv by (intro received_nonneg) (simp add: ledger_inv_def)
    moreover have "0 \<le> miningReward bc" using inv by (simp add: ledger_inv_def)
    ultimately show ?thesis
      using minePendingTransactions_balance [OF run, of x]
      by (simp add: sum_tx_net pending_spent_def)
  qed
  with valid inv show ?thesis
    by (simp add: ledger_inv_def bc' pending_spent_def)
qed

lemma ledger_step_inv: "ledger_step C bc bc' \<Longrightarrow> ledger_inv C bc \<Longrightarrow> ledger_inv C bc'"
  by (induction rule: ledger_step.induct) (auto intro: addTransaction_inv minePendingTransactions_inv)

lemma reachable_ledger_inv: "reachable C bc \<Longrightarrow> ledger_inv C bc"
proof (induction rule: reachable.induct)
  case init
  show ?case by (rule ledger_inv_init)
next
  case (step bc bc')
  then show ?case by (blast intro: ledger_step_inv)
qed

text \<open>
  C23: The well-formedness invariant of the ledger is closed under both mutators. If it
  holds before a successful addTransaction or minePendingTransactions call, it holds
  after. It says: the chain is valid, every pending transaction verifies and moves a
  positive amount, the reward is not negative, and pending spending is covered.
\<close>

theorem ledger_inv_closed:
  assumes "ledger_inv C bc"
  shows "(addTransaction C t bc = Inr bc' \<longrightarrow> ledger_inv C bc') \<and>
    (minePendingTransactions C txNow blockNow a bc = Some (Inr bc'') \<longrightarrow> ledger_inv C bc'')"
  using assms addTransaction_inv minePendingTransactions_inv by blast

subsection \<open>What every reachable state satisfies\<close>

text \<open>
  C1: Every state that a sequence of addTransaction and minePendingTransactions calls
  reaches from new Blockchain() passes isChainValid(): it returns true and does not
  throw.
\<close>

theorem reachable_isChainValid: "reachable C bc \<Longrightarrow> isChainValid C bc = Inr True"
  by (drule reachable_ledger_inv) (simp add: ledger_inv_def isChainValid_iff)

text \<open>
  C3: In every reachable state, no address has a negative balance.
\<close>

theorem reachable_balance_nonneg: "reachable C bc \<Longrightarrow> 0 \<le> getBalanceOfAddress bc a"
proof -
  assume "reachable C bc"
  then have inv: "ledger_inv C bc" by (rule reachable_ledger_inv)
  then have "0 \<le> pending_spent bc a"
    unfolding pending_spent_def ledger_inv_def by (intro sum_list_map_nonneg) auto
  with inv show ?thesis unfolding ledger_inv_def by (meson order_trans)
qed

text \<open>
  C2: In every reachable state, what an address spends in the pending buffer is covered
  by its confirmed balance.
\<close>

theorem reachable_no_overcommit:
  "reachable C bc \<Longrightarrow> pending_spent bc a \<le> getBalanceOfAddress bc a"
  by (drule reachable_ledger_inv) (simp add: ledger_inv_def)

lemma reachable_chain_nonempty: "reachable C bc \<Longrightarrow> chain bc \<noteq> []"
  by (drule reachable_ledger_inv) (simp add: ledger_inv_def chain_valid_spec_def)

lemma reachable_difficulty: "reachable C bc \<Longrightarrow> difficulty bc = 2"
proof (induction rule: reachable.induct)
  case init
  then show ?case by (simp add: new_Blockchain_def)
next
  case (step bc bc')
  from step.hyps(2) step.IH show ?case
    by (cases rule: ledger_step.cases) (auto dest!: addTransaction_Inr minePendingTransactions_Inr)
qed

lemma mine_returns:
  assumes "reachable C bc" and pow: "\<forall>b. \<exists>n. pow_ok 2 (block_calculateHash C (b\<lparr>nonce := n\<rparr>))"
  shows "\<exists>bc'. minePendingTransactions C t1 t2 a bc = Some (Inr bc')"
proof -
  let ?b = "new_Block C t2 (pendingTransactions bc @ [new_Transaction None a (miningReward bc) t1])
             (hash (last (chain bc)))"
  from pow obtain n where "pow_ok 2 (block_calculateHash C (?b\<lparr>nonce := n\<rparr>))" by blast
  then have "pow_ok (difficulty bc) (block_calculateHash C (?b\<lparr>nonce := nonce ?b + n\<rparr>))"
    using reachable_difficulty [OF assms(1)] by simp
  from mineBlock_finds [OF new_Block_consistent this] obtain m
    where "mineBlock C (difficulty bc) ?b = Some (with_nonce C ?b (nonce ?b + m))" by blast
  with reachable_chain_nonempty [OF assms(1)] show ?thesis
    by (simp add: minePendingTransactions_def getLatestBlock_def Let_def)
qed

text \<open>
  C10: From a reachable state, minePendingTransactions returns the new state, and does
  not throw, whenever some nonce solves the proof of work of the block it builds.
\<close>

theorem reachable_mine_returns:
  assumes "reachable C bc"
    and "pow_ok (difficulty bc) (block_calculateHash C
          ((new_Block C blockNow (pendingTransactions bc @ [new_Transaction None a (miningReward bc) txNow])
             (hash (last (chain bc))))\<lparr>nonce := n\<rparr>))"
  shows "\<exists>bc'. minePendingTransactions C txNow blockNow a bc = Some (Inr bc')"
proof -
  let ?b = "new_Block C blockNow (pendingTransactions bc @ [new_Transaction None a (miningReward bc) txNow])
             (hash (last (chain bc)))"
  from assms(2) have "pow_ok (difficulty bc) (block_calculateHash C (?b\<lparr>nonce := nonce ?b + n\<rparr>))"
    by simp
  from mineBlock_finds [OF new_Block_consistent this] obtain m
    where "mineBlock C (difficulty bc) ?b = Some (with_nonce C ?b (nonce ?b + m))" by blast
  with reachable_chain_nonempty [OF assms(1)] show ?thesis
    by (simp add: minePendingTransactions_def getLatestBlock_def Let_def)
qed

subsection \<open>Tamper detection, and what \<open>isChainValid\<close> does not check\<close>

text \<open>
  These theorems are about any chain that \<open>isChainValid\<close> accepts, reachable or not.
  Changing the stored hash of any block is detected. Changing any other field of a block
  is detected when SHA-256 is injective on the strings it is applied to and the stored
  hash is kept, or when the block has a successor. Replacing the last block by one with
  recomputed hash is not detected: the check never looks at the proof of work.
\<close>

lemma chain_valid_spec_at:
  "chain_valid_spec C bs \<Longrightarrow> 0 < i \<Longrightarrow> i < length bs \<Longrightarrow> block_ok C (bs ! (i - 1)) (bs ! i)"
  by (simp add: chain_valid_spec_def)

lemma chain_valid_spec_hd:
  "chain_valid_spec C bs \<Longrightarrow> bs ! 0 = createGenesisBlock C"
  by (metis chain_valid_spec_def hd_conv_nth)

text \<open>
  C28: Spec section 8: changing the previousHash of any non-genesis block of an accepted
  chain makes isChainValid() reject it, whatever the hash function.
\<close>

theorem tamper_link_detected:
  assumes valid: "isChainValid C bc = Inr True" and i: "0 < i" "i < length (chain bc)"
    and p: "p \<noteq> previousHash (chain bc ! i)"
  shows "isChainValid C (bc\<lparr>chain := (chain bc)[i := (chain bc ! i)\<lparr>previousHash := p\<rparr>]\<rparr>) \<noteq> Inr True"
proof
  let ?bs' = "(chain bc)[i := (chain bc ! i)\<lparr>previousHash := p\<rparr>]"
  assume "isChainValid C (bc\<lparr>chain := ?bs'\<rparr>) = Inr True"
  then have spec': "chain_valid_spec C ?bs'" by (simp add: isChainValid_iff)
  from valid have spec: "chain_valid_spec C (chain bc)" by (simp add: isChainValid_iff)
  from chain_valid_spec_at [OF spec' i(1)] chain_valid_spec_at [OF spec i(1)] i p
  show False by (simp add: block_ok_def)
qed

text \<open>Two valid chains that differ in one block: a successor pins the block's hash, and
  with an injective hash the stored hash pins the whole block.\<close>

lemma replaced_block_successor:
  assumes spec: "chain_valid_spec C bs" and spec': "chain_valid_spec C (bs[i := b'])"
    and si: "Suc i < length bs"
  shows "hash b' = hash (bs ! i)"
proof -
  from chain_valid_spec_at [OF spec' _, of "Suc i"] si
  have "hash b' = previousHash (bs ! Suc i)" by (simp add: block_ok_def)
  moreover from chain_valid_spec_at [OF spec _, of "Suc i"] si
  have "hash (bs ! i) = previousHash (bs ! Suc i)" by (simp add: block_ok_def)
  ultimately show ?thesis by simp
qed

lemma replaced_block_same_hash:
  assumes inj: "inj (sha256 C)" and spec: "chain_valid_spec C bs"
    and spec': "chain_valid_spec C (bs[i := b'])" and i: "i < length bs"
    and same: "hash b' = hash (bs ! i)"
  shows "b' = bs ! i"
proof (cases "i = 0")
  case True
  with spec spec' i show ?thesis by (metis chain_valid_spec_hd nth_list_update_eq)
next
  case False
  have prev: "i - 1 \<noteq> i" "i - 1 < length bs" using False i by auto
  from chain_valid_spec_at [OF spec' _, of i] False i prev
  have 1: "hash (bs ! (i - 1)) = previousHash b'" "hash b' = block_calculateHash C b'"
    by (simp_all add: block_ok_def)
  from chain_valid_spec_at [OF spec _, of i] False i
  have 2: "hash (bs ! (i - 1)) = previousHash (bs ! i)"
    "hash (bs ! i) = block_calculateHash C (bs ! i)"
    by (simp_all add: block_ok_def)
  from 1 2 same have "block_calculateHash C b' = block_calculateHash C (bs ! i)"
    and p: "previousHash b' = previousHash (bs ! i)" by simp_all
  with inj have "timestamp b' = timestamp (bs ! i) \<and> transactions b' = transactions (bs ! i)
      \<and> nonce b' = nonce (bs ! i)"
    by (rule block_calculateHash_inj)
  with same p show ?thesis by (cases b', cases "bs ! i") simp
qed

text \<open>
  C6: Overwriting the stored hash of any block of a chain that isChainValid() accepts,
  with a different value, makes it no longer accepted.
\<close>

theorem tamper_hash_detected:
  assumes valid: "isChainValid C bc = Inr True" and i: "i < length (chain bc)"
    and h: "h \<noteq> hash (chain bc ! i)"
  shows "isChainValid C (bc\<lparr>chain := (chain bc)[i := (chain bc ! i)\<lparr>hash := h\<rparr>]\<rparr>) \<noteq> Inr True"
proof
  let ?bs = "chain bc"
  let ?bs' = "?bs[i := (?bs ! i)\<lparr>hash := h\<rparr>]"
  assume "isChainValid C (bc\<lparr>chain := ?bs'\<rparr>) = Inr True"
  then have spec': "chain_valid_spec C ?bs'" by (simp add: isChainValid_iff)
  from valid have spec: "chain_valid_spec C ?bs" by (simp add: isChainValid_iff)
  show False
  proof (cases "i = 0")
    case True
    with spec spec' i have "(createGenesisBlock C)\<lparr>hash := h\<rparr> = createGenesisBlock C"
      by (metis chain_valid_spec_hd nth_list_update_eq)
    with h True spec show False by (metis block.select_convs(5) block.surjective block.update_convs(5)
        chain_valid_spec_hd)
  next
    case False
    with spec' i have "hash (?bs' ! i) = block_calculateHash C (?bs' ! i)"
      using chain_valid_spec_at [OF spec', of i] by (simp add: block_ok_def)
    moreover from False spec i have "hash (?bs ! i) = block_calculateHash C (?bs ! i)"
      using chain_valid_spec_at [OF spec, of i] by (simp add: block_ok_def)
    ultimately show False using h i by simp
  qed
qed

text \<open>
  C7: Suppose SHA-256 is injective. Then replacing a block of an accepted chain by a
  different one is detected by isChainValid(), if the new block keeps the stored hash or
  the block has a successor.
\<close>

theorem tamper_detected:
  assumes inj: "inj (sha256 C)" and valid: "isChainValid C bc = Inr True"
    and i: "i < length (chain bc)" and diff: "b' \<noteq> chain bc ! i"
    and keep: "hash b' = hash (chain bc ! i) \<or> Suc i < length (chain bc)"
  shows "isChainValid C (bc\<lparr>chain := (chain bc)[i := b']\<rparr>) \<noteq> Inr True"
proof
  assume "isChainValid C (bc\<lparr>chain := (chain bc)[i := b']\<rparr>) = Inr True"
  then have spec': "chain_valid_spec C ((chain bc)[i := b'])" by (simp add: isChainValid_iff)
  from valid have spec: "chain_valid_spec C (chain bc)" by (simp add: isChainValid_iff)
  have "hash b' = hash (chain bc ! i)"
    using keep replaced_block_successor [OF spec spec'] by blast
  with replaced_block_same_hash [OF inj spec spec' i] diff show False by blast
qed

text \<open>
  C16: isChainValid() never checks the proof of work. The last block of an accepted
  chain can be replaced by any block with valid transactions that links to the same
  predecessor and carries its own recomputed hash, and the chain is still accepted.
\<close>

theorem rehash_last_block_valid:
  assumes valid: "isChainValid C bc = Inr True" and split: "chain bc = bs @ [b]" and ne: "bs \<noteq> []"
    and prev: "previousHash b' = previousHash b"
    and txs: "txs_valid C (transactions b') = Inr True"
  shows "isChainValid C (bc\<lparr>chain := bs @ [b'\<lparr>hash := block_calculateHash C b'\<rparr>]\<rparr>) = Inr True"
proof -
  from valid split ne have "chain_valid_spec C bs" and "block_ok C (last bs) b"
    by (simp_all add: isChainValid_iff chain_valid_spec_snoc)
  moreover from \<open>block_ok C (last bs) b\<close> prev txs
  have "block_ok C (last bs) (b'\<lparr>hash := block_calculateHash C b'\<rparr>)"
    by (simp add: block_ok_def hasValidTransactions_def)
  ultimately show ?thesis using ne by (simp add: isChainValid_iff chain_valid_spec_snoc)
qed

text \<open>
  C17: isChainValid() throws MissingSignatureError, instead of returning false, on a
  chain whose second block holds an unsigned transfer.
\<close>

theorem isChainValid_throws_unsigned:
  "isChainValid C
     \<lparr>chain = [createGenesisBlock C,
               new_Block C ts (new_Transaction (Some s) r amt ts' # txs) (hash (createGenesisBlock C))],
      difficulty = d, pendingTransactions = p, miningReward = m\<rparr> = Inl MissingSignatureError"
  by (simp add: isChainValid_def isChainValid_from.simps [of C _ "Suc 0"] hasValidTransactions_def
      isValid_def new_Transaction_def Let_def)

end
