(* ===== verification/MainJs.thy ===== *)
theory MainJs
  imports Ledger
begin

text \<open>
  The demonstration script \<open>src/src/main.js\<close>: it derives a wallet from a fixed private
  key, mines the genesis reward, pays 100 to \<open>address2\<close>, mines, pays 50 to
  \<open>address1\<close>, mines, and prints the wallet's balance and whether the chain is valid.
  Each statement is one step of \<open>js_bind\<close>: a thrown error ends the script, a
  proof-of-work search that never stops makes it not return. The eight \<open>Date.now()\<close>
  readings, in the order the script makes them, are \<open>now 0\<close> to \<open>now 7\<close>. The
  printed lines are the result.
\<close>

definition main_private_key :: string where
  "main_private_key = ''7c4c45907dec40c91bab3480c39032e90049f1a44f3e18c3e07c23e3273995cf''"

text \<open>Lines 15--17 (and 20--22): construct a transfer, sign it, add it to the chain.\<close>

definition pay ::
  "'k crypto \<Rightarrow> 'k \<Rightarrow> address \<Rightarrow> address \<Rightarrow> int \<Rightarrow> int \<Rightarrow> blockchain \<Rightarrow> blockchain js_result" where
  "pay C myKey fromA toA amt now bc =
     js_bind (Some (signTransaction C myKey (new_Transaction (Some fromA) toA amt now)))
       (\<lambda>tx. Some (addTransaction C tx bc))"

text \<open>Lines 25--31: \<open>console.log()\<close> prints an empty line, a template literal prints
  the number in decimal, \<open>console.log(a, b)\<close> separates its arguments by a space.\<close>

definition report :: "'k crypto \<Rightarrow> address \<Rightarrow> blockchain \<Rightarrow> string list js_result" where
  "report C myWalletAddress safeCoin =
     (let balance = getBalanceOfAddress safeCoin myWalletAddress
      in js_bind (Some (isChainValid C safeCoin)) (\<lambda>valid.
           Some (Inr ['''', ''Balance: '' @ int_str balance, '''',
                      ''Blockchain valid? '' @ (if valid then ''Yes'' else ''No'')])))"

definition main_js :: "'k crypto \<Rightarrow> (nat \<Rightarrow> int) \<Rightarrow> string list js_result" where
  "main_js C now =
     (let myKey = ec_keyFromPrivate C main_private_key;
          myWalletAddress = ec_public C myKey;
          safeCoin = new_Blockchain C
      in js_bind (minePendingTransactions C (now 0) (now 1) myWalletAddress safeCoin) (\<lambda>safeCoin.
         js_bind (pay C myKey myWalletAddress ''address2'' 100 (now 2) safeCoin) (\<lambda>safeCoin.
         js_bind (minePendingTransactions C (now 3) (now 4) myWalletAddress safeCoin) (\<lambda>safeCoin.
         js_bind (pay C myKey myWalletAddress ''address1'' 50 (now 5) safeCoin) (\<lambda>safeCoin.
         js_bind (minePendingTransactions C (now 6) (now 7) myWalletAddress safeCoin) (\<lambda>safeCoin.
         report C myWalletAddress safeCoin))))))"

subsection \<open>The script's steps on a reachable state\<close>

lemma mine_step:
  assumes "reachable C bc" and "minePendingTransactions C t1 t2 a bc = Some r"
  shows "\<exists>bc'. r = Inr bc' \<and> reachable C bc' \<and> pendingTransactions bc' = [] \<and>
    miningReward bc' = miningReward bc \<and>
    getBalanceOfAddress bc' a =
      getBalanceOfAddress bc a + sum_list (map (tx_net a) (pendingTransactions bc)) + miningReward bc"
proof -
  from reachable_chain_nonempty [OF assms(1)] assms(2) obtain bc' where r: "r = Inr bc'"
    by (cases r) (auto simp: minePendingTransactions_def getLatestBlock_def Let_def)
  with assms(2) have run: "minePendingTransactions C t1 t2 a bc = Some (Inr bc')" by simp
  from minePendingTransactions_Inr [OF run] minePendingTransactions_balance [OF run, of a]
    reachable.step [OF assms(1) ledger_step.mine [OF run]] r
  show ?thesis by auto
qed

lemma pay_step:
  assumes sound: "sound_signatures C" and "reachable C bc" and "pendingTransactions bc = []"
    and "ec_public C k = a" and "a \<noteq> []" and "toA \<noteq> []" and "0 < amt"
    and "amt \<le> getBalanceOfAddress bc a"
  shows "\<exists>tx bc'. pay C k a toA amt ts bc = Some (Inr bc') \<and> reachable C bc' \<and>
    pendingTransactions bc' = [tx] \<and> miningReward bc' = miningReward bc \<and>
    (\<forall>x. getBalanceOfAddress bc' x = getBalanceOfAddress bc x) \<and>
    fromAddress tx = Some a \<and> toAddress tx = toA \<and> amount tx = amt"
proof -
  let ?t = "new_Transaction (Some a) toA amt ts"
  let ?tx = "?t\<lparr>signature := Some (ec_sign C k (tx_calculateHash C ?t))\<rparr>"
  have s: "signTransaction C k ?t = Inr ?tx"
    using assms(4) by (simp add: signTransaction_def new_Transaction_def)
  have add: "addTransaction C ?tx bc = Inr (bc\<lparr>pendingTransactions := [?tx]\<rparr>)"
    using addTransaction_ok [of ?tx a, OF _ _ _ signTransaction_isValid [OF sound s]] assms
    by (simp add: new_Transaction_def pending_spent_def)
  from reachable.step [OF assms(2) ledger_step.add [OF add]] add s show ?thesis
    by (intro exI [of _ ?tx] exI [of _ "bc\<lparr>pendingTransactions := [?tx]\<rparr>"])
       (simp add: pay_def new_Transaction_def)
qed

lemma tx_net_payment: "fromAddress tx = Some a \<Longrightarrow> toAddress tx \<noteq> a \<Longrightarrow> tx_net a tx = - amount tx"
  by (simp add: tx_net_def)

lemma mine_bind:
  assumes "reachable C bc" and "js_bind (minePendingTransactions C t1 t2 a bc) f = Some r"
  shows "\<exists>bc'. f bc' = Some r \<and> reachable C bc' \<and> pendingTransactions bc' = [] \<and>
    miningReward bc' = miningReward bc \<and>
    getBalanceOfAddress bc' a =
      getBalanceOfAddress bc a + sum_list (map (tx_net a) (pendingTransactions bc)) + miningReward bc"
proof -
  have "\<exists>bc'. r' = Inr bc' \<and> reachable C bc' \<and> pendingTransactions bc' = [] \<and>
      miningReward bc' = miningReward bc \<and>
      getBalanceOfAddress bc' a =
        getBalanceOfAddress bc a + sum_list (map (tx_net a) (pendingTransactions bc)) + miningReward bc"
    if "minePendingTransactions C t1 t2 a bc = Some r'" for r'
    using mine_step [OF assms(1) that] .
  from js_bind_SomeE [OF assms(2) this] show ?thesis by blast
qed

text \<open>Lines 15--18 and 20--23 of \<open>main.js\<close>: a payment from the miner's own
  wallet, then mining to that wallet, moves the balance by the reward minus the amount.\<close>

lemma pay_mine_bind:
  assumes sound: "sound_signatures C" and bc: "reachable C bc" "pendingTransactions bc = []"
    "miningReward bc = 100"
    and "ec_public C k = a" and "a \<noteq> []" and "toA \<noteq> []" and "toA \<noteq> a" and "0 < amt"
    and "amt \<le> getBalanceOfAddress bc a"
    and run: "js_bind (pay C k a toA amt ts bc) (\<lambda>bc. js_bind (minePendingTransactions C t1 t2 a bc) f) =
      Some r"
  shows "\<exists>bc'. f bc' = Some r \<and> reachable C bc' \<and> pendingTransactions bc' = [] \<and>
    miningReward bc' = 100 \<and> getBalanceOfAddress bc' a = getBalanceOfAddress bc a - amt + 100"
proof -
  from pay_step [OF sound bc(1,2), of k a toA amt ts] assms(5-10)
  obtain tx bc2 where pay: "pay C k a toA amt ts bc = Some (Inr bc2)" and bc2:
      "reachable C bc2" "pendingTransactions bc2 = [tx]" "miningReward bc2 = 100"
      "getBalanceOfAddress bc2 a = getBalanceOfAddress bc a" "fromAddress tx = Some a"
      "toAddress tx = toA" "amount tx = amt"
    using bc(3) by auto
  from run pay have "js_bind (minePendingTransactions C t1 t2 a bc2) f = Some r" by simp
  from mine_bind [OF bc2(1) this] bc2 \<open>toA \<noteq> a\<close> show ?thesis by (auto simp: tx_net_payment)
qed

subsection \<open>What the script prints\<close>

text \<open>
  C5: Assume signatures are sound and the wallet address of the script's key is neither
  empty nor one of the two payees. Then the demonstration script main.js, whenever it
  finishes, prints the balance 150 and that the chain is valid; none of its statements
  throws.
\<close>

theorem main_js_output:
  assumes sound: "sound_signatures C"
    and addr: "ec_public C (ec_keyFromPrivate C main_private_key) \<notin> {[], ''address1'', ''address2''}"
    and run: "main_js C now = Some r"
  shows "r = Inr ['''', ''Balance: 150'', '''', ''Blockchain valid? Yes'']"
proof -
  define k where "k = ec_keyFromPrivate C main_private_key"
  define a where "a = ec_public C k"
  have a: "a \<noteq> []" "''address1'' \<noteq> a" "''address2'' \<noteq> a" "ec_public C k = a"
    using addr by (auto simp: a_def k_def)
  let ?k4 = "\<lambda>bc. js_bind (minePendingTransactions C (now 6) (now 7) a bc) (report C a)"
  let ?k3 = "\<lambda>bc. js_bind (pay C k a ''address1'' 50 (now 5) bc) ?k4"
  let ?k2 = "\<lambda>bc. js_bind (minePendingTransactions C (now 3) (now 4) a bc) ?k3"
  let ?k1 = "\<lambda>bc. js_bind (pay C k a ''address2'' 100 (now 2) bc) ?k2"
  have "js_bind (minePendingTransactions C (now 0) (now 1) a (new_Blockchain C)) ?k1 = Some r"
    using run by (simp add: main_js_def a_def k_def Let_def)
  from mine_bind [OF reachable.init this] obtain bc1 where r1: "?k1 bc1 = Some r"
    and bc1: "reachable C bc1" "pendingTransactions bc1 = []" "miningReward bc1 = 100"
      "getBalanceOfAddress bc1 a = 100"
    by auto
  from pay_mine_bind [OF sound bc1(1-3) a(4) a(1) _ _ _ _ r1] bc1(4) a(3)
  obtain bc3 where r3: "?k3 bc3 = Some r"
    and bc3: "reachable C bc3" "pendingTransactions bc3 = []" "miningReward bc3 = 100"
      "getBalanceOfAddress bc3 a = 100"
    by auto
  from pay_mine_bind [OF sound bc3(1-3) a(4) a(1) _ _ _ _ r3] bc3(4) a(2)
  obtain bc5 where r5: "report C a bc5 = Some r"
    and bc5: "reachable C bc5" "getBalanceOfAddress bc5 a = 150"
    by fastforce
  from reachable_ledger_inv [OF bc5(1)] have "isChainValid C bc5 = Inr True"
    by (simp add: ledger_inv_def isChainValid_iff)
  moreover have "int_str 150 = ''150''" by code_simp
  ultimately show ?thesis using r5 bc5(2) by (simp add: report_def)
qed

text \<open>
  C30: The script returns. Under the same assumptions, suppose every block has some nonce
  whose hash meets difficulty 2. Then main.js does not hang in the proof-of-work loop
  and finishes (by C5, with the output stated there).
\<close>

theorem main_js_returns:
  assumes sound: "sound_signatures C"
    and addr: "ec_public C (ec_keyFromPrivate C main_private_key) \<notin> {[], ''address1'', ''address2''}"
    and pow: "\<forall>b. \<exists>n. pow_ok 2 (block_calculateHash C (b\<lparr>nonce := n\<rparr>))"
  shows "\<exists>r. main_js C now = Some r"
proof -
  define k where "k = ec_keyFromPrivate C main_private_key"
  define a where "a = ec_public C k"
  have a: "a \<noteq> []" "''address1'' \<noteq> a" "''address2'' \<noteq> a" "ec_public C k = a"
    using addr by (auto simp: a_def k_def)
  obtain bc1 where m1: "minePendingTransactions C (now 0) (now 1) a (new_Blockchain C) = Some (Inr bc1)"
    using mine_returns [OF reachable.init pow] by blast
  from mine_step [OF reachable.init m1] have bc1: "reachable C bc1" "pendingTransactions bc1 = []"
    "miningReward bc1 = 100" "getBalanceOfAddress bc1 a = 100" by simp_all
  from pay_step [OF sound bc1(1,2) a(4) a(1), of "''address2''" 100 "now 2"] bc1(4) a(3)
  obtain tx bc2 where p2: "pay C k a ''address2'' 100 (now 2) bc1 = Some (Inr bc2)" and bc2:
      "reachable C bc2" "pendingTransactions bc2 = [tx]" "miningReward bc2 = 100"
      "getBalanceOfAddress bc2 a = 100" "fromAddress tx = Some a" "toAddress tx = ''address2''"
      "amount tx = 100"
    using bc1(3) by auto
  obtain bc3 where m3: "minePendingTransactions C (now 3) (now 4) a bc2 = Some (Inr bc3)"
    using mine_returns [OF bc2(1) pow] by blast
  from mine_step [OF bc2(1) m3] bc2 a have bc3: "reachable C bc3" "pendingTransactions bc3 = []"
    "getBalanceOfAddress bc3 a = 100" by (auto simp: tx_net_payment)
  from pay_step [OF sound bc3(1,2) a(4) a(1), of "''address1''" 50 "now 5"] bc3(3) a(2)
  obtain bc4 where p4: "pay C k a ''address1'' 50 (now 5) bc3 = Some (Inr bc4)" and "reachable C bc4"
    by auto
  then obtain bc5 where m5: "minePendingTransactions C (now 6) (now 7) a bc4 = Some (Inr bc5)"
    using mine_returns [OF _ pow] by blast
  have "main_js C now = report C a bc5"
    using m1 p2 m3 p4 m5 by (simp add: main_js_def Let_def a_def [symmetric] k_def [symmetric])
  then show ?thesis by (cases "isChainValid C bc5") (simp_all add: report_def)
qed

subsection \<open>The spec's end-to-end scenario\<close>

text \<open>
  C18: Spec section 8: a fresh chain mines a reward to A (balance 100). A signed
  transfer of 40 from A to B is admitted, and mining again to A gives A the balance 160
  and B the balance 40.
\<close>

theorem spec_scenario_balances:
  assumes sound: "sound_signatures C" and key: "ec_public C k = a" and "a \<noteq> []"
    and "b \<noteq> []" and "b \<noteq> a"
    and mine1: "minePendingTransactions C ta tb a (new_Blockchain C) = Some (Inr bc1)"
  shows "getBalanceOfAddress bc1 a = 100 \<and>
    (\<exists>bc2. pay C k a b 40 tc bc1 = Some (Inr bc2) \<and>
       (\<forall>r. minePendingTransactions C td te a bc2 = Some r \<longrightarrow>
          (\<exists>bc3. r = Inr bc3 \<and> getBalanceOfAddress bc3 a = 160 \<and> getBalanceOfAddress bc3 b = 40)))"
proof -
  from mine_step [OF reachable.init mine1] have bc1: "reachable C bc1"
    "pendingTransactions bc1 = []" "miningReward bc1 = 100" "getBalanceOfAddress bc1 a = 100"
    by simp_all
  have b1: "getBalanceOfAddress bc1 b = 0"
    using minePendingTransactions_balance [OF mine1, of b] \<open>b \<noteq> a\<close> by simp
  from pay_step [OF sound bc1(1,2) key, of b 40 tc] bc1 assms(3-5)
  obtain tx bc2 where pay: "pay C k a b 40 tc bc1 = Some (Inr bc2)" and bc2:
      "reachable C bc2" "pendingTransactions bc2 = [tx]" "miningReward bc2 = 100"
      "getBalanceOfAddress bc2 a = 100" "getBalanceOfAddress bc2 b = 0" "fromAddress tx = Some a"
      "toAddress tx = b" "amount tx = 40"
    using b1 by auto
  have "\<exists>bc3. r = Inr bc3 \<and> getBalanceOfAddress bc3 a = 160 \<and> getBalanceOfAddress bc3 b = 40"
    if run: "minePendingTransactions C td te a bc2 = Some r" for r
  proof -
    from mine_step [OF bc2(1) run] obtain bc3 where r: "r = Inr bc3" by blast
    with run have run': "minePendingTransactions C td te a bc2 = Some (Inr bc3)" by simp
    from minePendingTransactions_balance [OF run', of a] minePendingTransactions_balance [OF run', of b]
    show ?thesis using r bc2 \<open>b \<noteq> a\<close> by (simp add: tx_net_def)
  qed
  with pay bc1 show ?thesis by blast
qed

end
