(* ===== verification/AccountSpec.thy ===== *)
theory AccountSpec
  imports Ledger
begin

text \<open>
  What the ledger promises, without blocks, hashes or signatures: an account machine.
  Its state is the confirmed balance of every address, the queue of admitted transfers
  (sender, recipient, amount), and the number of sealed batches. It has two steps. The
  first, \<open>submit\<close>, queues a positive transfer that the sender's confirmed balance
  covers together with what it already has queued. The second, \<open>seal\<close>, applies the
  queue and a reward of \<open>R\<close> to a miner, then empties the queue.

  \<open>abs_state\<close> maps a \<open>blockchain\<close> to this state: the balances that
  \<open>getBalanceOfAddress\<close> replays, the pending transactions as transfers, and the
  number of mined blocks. The refinement theorem says that every reachable ledger state
  maps to a reachable account state, with \<open>R = 100\<close>. The account machine keeps the
  money supply exact, and no balance can exceed it.
\<close>

type_synonym transfer = "address \<times> address \<times> int"

record account_state =
  confirmed :: "address \<Rightarrow> int"
  queued :: "transfer list"
  sealed :: nat

definition transfer_net :: "address \<Rightarrow> transfer \<Rightarrow> int" where
  "transfer_net x q = (case q of (s, r, amt) \<Rightarrow>
     (if r = x then amt else 0) - (if s = x then amt else 0))"

definition net :: "address \<Rightarrow> transfer list \<Rightarrow> int" where
  "net x qs = sum_list (map (transfer_net x) qs)"

definition spent :: "address \<Rightarrow> transfer list \<Rightarrow> int" where
  "spent a qs = sum_list (map (\<lambda>(s, r, amt). if s = a then amt else 0) qs)"

definition acct_init :: account_state where
  "acct_init = \<lparr>confirmed = (\<lambda>_. 0), queued = [], sealed = 0\<rparr>"

definition seal_with :: "int \<Rightarrow> address \<Rightarrow> account_state \<Rightarrow> account_state" where
  "seal_with R m S =
     \<lparr>confirmed = (\<lambda>x. confirmed S x + net x (queued S) + (if x = m then R else 0)),
      queued = [], sealed = Suc (sealed S)\<rparr>"

inductive acct_step :: "int \<Rightarrow> account_state \<Rightarrow> account_state \<Rightarrow> bool" for R where
  submit: "0 < amt \<Longrightarrow> spent s (queued S) + amt \<le> confirmed S s \<Longrightarrow>
           acct_step R S (S\<lparr>queued := queued S @ [(s, r, amt)]\<rparr>)"
| seal: "acct_step R S (seal_with R m S)"

inductive acct_reachable :: "int \<Rightarrow> account_state \<Rightarrow> bool" for R where
  init: "acct_reachable R acct_init"
| step: "acct_reachable R S \<Longrightarrow> acct_step R S S' \<Longrightarrow> acct_reachable R S'"

definition support :: "account_state \<Rightarrow> address set" where
  "support S = {a. confirmed S a \<noteq> 0}"

definition parties :: "transfer list \<Rightarrow> address set" where
  "parties qs = set (concat (map (\<lambda>(s, r, amt). [s, r]) qs))"

definition acct_inv :: "int \<Rightarrow> account_state \<Rightarrow> bool" where
  "acct_inv R S \<longleftrightarrow>
     finite (support S) \<and> sum (confirmed S) (support S) = R * int (sealed S) \<and>
     (\<forall>a. 0 \<le> confirmed S a) \<and> (\<forall>a. spent a (queued S) \<le> confirmed S a) \<and>
     (\<forall>(s, r, amt) \<in> set (queued S). 0 < amt)"

text \<open>The refinement mapping. A pending transaction always has a sender, since
  \<open>addTransaction\<close> rejects a \<open>null\<close> one.\<close>

definition transfer_of :: "transaction \<Rightarrow> transfer" where
  "transfer_of t = (case fromAddress t of Some s \<Rightarrow> s | None \<Rightarrow> [], toAddress t, amount t)"

definition abs_state :: "blockchain \<Rightarrow> account_state" where
  "abs_state bc =
     \<lparr>confirmed = getBalanceOfAddress bc, queued = map transfer_of (pendingTransactions bc),
      sealed = length (chain bc) - 1\<rparr>"

subsection \<open>Sums of transfers\<close>

lemma spent_append [simp]: "spent a (qs @ qs') = spent a qs + spent a qs'"
  by (simp add: spent_def)

lemma net_append [simp]: "net x (qs @ qs') = net x qs + net x qs'"
  by (simp add: net_def)

lemma spent_Nil [simp]: "spent a [] = 0" and net_Nil [simp]: "net x [] = 0"
  by (simp_all add: spent_def net_def)

lemma spent_Cons [simp]: "spent a ((s, r, amt) # qs) = (if s = a then amt else 0) + spent a qs"
  by (simp add: spent_def)

lemma net_Cons [simp]: "net x (q # qs) = transfer_net x q + net x qs"
  by (simp add: net_def)

lemma net_lower_bound:
  "\<forall>(s, r, amt) \<in> set qs. 0 < amt \<Longrightarrow> - spent x qs \<le> net x qs"
  by (induction qs) (auto simp: transfer_net_def)

text \<open>A transfer between two addresses of \<open>A\<close> leaves the total over \<open>A\<close> unchanged.\<close>

lemma sum_net_closed:
  assumes "finite A" and "parties qs \<subseteq> A"
  shows "(\<Sum>x\<in>A. net x qs) = 0"
  using assms(2)
proof (induction qs)
  case Nil
  then show ?case by simp
next
  case (Cons q qs)
  obtain s r amt where q: "q = (s, r, amt)" by (cases q) auto
  with Cons.prems have "s \<in> A" "r \<in> A" and "parties qs \<subseteq> A" by (auto simp: parties_def)
  then have "(\<Sum>x\<in>A. transfer_net x q) = 0"
    using assms(1) by (simp add: q transfer_net_def sum_subtractf sum.delta sum.delta')
  with Cons.IH \<open>parties qs \<subseteq> A\<close> show ?case by (simp add: sum.distrib)
qed

lemma finite_parties [simp]: "finite (parties qs)"
  unfolding parties_def by (rule finite_set)

lemma net_outside: "x \<notin> parties qs \<Longrightarrow> net x qs = 0"
  by (induction qs) (auto simp: parties_def transfer_net_def)

lemma sum_over_support:
  "finite A \<Longrightarrow> {x. f x \<noteq> 0} \<subseteq> A \<Longrightarrow> sum f A = sum f {x. f x \<noteq> (0 :: int)}"
  by (rule sum.mono_neutral_right) auto

subsection \<open>The account machine's invariant\<close>

lemma acct_inv_init: "acct_inv R acct_init"
  by (simp add: acct_inv_def acct_init_def support_def)

lemma acct_inv_submit:
  assumes "acct_inv R S" and "0 < amt" and "spent s (queued S) + amt \<le> confirmed S s"
  shows "acct_inv R (S\<lparr>queued := queued S @ [(s, r, amt)]\<rparr>)"
  using assms by (auto simp: acct_inv_def support_def)

lemma acct_inv_seal:
  assumes inv: "acct_inv R S" and R: "0 \<le> R"
  shows "acct_inv R (seal_with R m S)"
proof -
  let ?c = "confirmed S" and ?qs = "queued S"
  let ?c' = "confirmed (seal_with R m S)"
  let ?A = "support S \<union> parties ?qs \<union> {m}"
  have finA: "finite ?A" using inv by (simp add: acct_inv_def)
  have c': "?c' x = ?c x + net x ?qs + (if x = m then R else 0)" for x
    by (simp add: seal_with_def)
  have nonneg: "0 \<le> ?c' x" for x
  proof -
    have "- spent x ?qs \<le> net x ?qs" using inv by (intro net_lower_bound) (simp add: acct_inv_def)
    moreover have "spent x ?qs \<le> ?c x" using inv by (simp add: acct_inv_def)
    ultimately show ?thesis using R by (simp add: c')
  qed
  have supp: "support (seal_with R m S) \<subseteq> ?A"
    by (auto simp: support_def c' net_outside)
  have "sum ?c' (support (seal_with R m S)) = sum ?c' ?A"
    using sum_over_support [OF finA, of ?c'] supp by (simp add: support_def)
  also have "\<dots> = sum ?c ?A + (\<Sum>x\<in>?A. net x ?qs) + (\<Sum>x\<in>?A. if x = m then R else 0)"
    by (simp add: c' sum.distrib)
  also have "sum ?c ?A = sum ?c (support S)"
    using sum_over_support [OF finA, of ?c] by (auto simp: support_def)
  also have "(\<Sum>x\<in>?A. net x ?qs) = 0" using finA by (intro sum_net_closed) auto
  also have "(\<Sum>x\<in>?A. if x = m then R else 0) = R" using finA by (simp add: sum.delta')
  finally have "sum ?c' (support (seal_with R m S)) = R * int (sealed (seal_with R m S))"
    using inv by (simp add: acct_inv_def seal_with_def algebra_simps)
  with finA supp nonneg show ?thesis
    by (auto simp: acct_inv_def seal_with_def intro: finite_subset)
qed

lemma acct_reachable_inv: "acct_reachable R S \<Longrightarrow> 0 \<le> R \<Longrightarrow> acct_inv R S"
proof (induction rule: acct_reachable.induct)
  case init
  show ?case by (rule acct_inv_init)
next
  case (step S S')
  from step.hyps(2) step.IH step.prems show ?case
    by (cases rule: acct_step.cases) (auto intro: acct_inv_submit acct_inv_seal)
qed

lemma acct_inv_bound: "acct_inv R S \<Longrightarrow> confirmed S a \<le> R * int (sealed S)"
proof -
  assume inv: "acct_inv R S"
  then have fin: "finite (support S)" and nonneg: "\<And>x. 0 \<le> confirmed S x"
    and total: "sum (confirmed S) (support S) = R * int (sealed S)"
    by (simp_all add: acct_inv_def)
  show ?thesis
  proof (cases "a \<in> support S")
    case True
    with fin nonneg have "confirmed S a \<le> sum (confirmed S) (support S)"
      by (intro member_le_sum) auto
    with total show ?thesis by simp
  next
    case False
    then have "confirmed S a = 0" by (simp add: support_def)
    moreover have "0 \<le> sum (confirmed S) (support S)" using nonneg by (intro sum_nonneg) auto
    ultimately show ?thesis using total by simp
  qed
qed

subsection \<open>The ledger refines the account machine\<close>

lemma spent_transfer_of:
  "\<forall>t \<in> set txs. fromAddress t \<noteq> None \<Longrightarrow>
   spent a (map transfer_of txs) = sum_list (map amount (filter (\<lambda>t. fromAddress t = Some a) txs))"
  by (induction txs) (auto simp: transfer_of_def)

lemma net_transfer_of:
  "\<forall>t \<in> set txs. fromAddress t \<noteq> None \<Longrightarrow>
   net x (map transfer_of txs) = sum_list (map (tx_net x) txs)"
  by (induction txs) (auto simp: transfer_of_def transfer_net_def tx_net_def)

lemma abs_state_init: "abs_state (new_Blockchain C) = acct_init"
  by (simp add: abs_state_def acct_init_def fun_eq_iff)

lemma abs_state_add:
  assumes "addTransaction C t bc = Inr bc'" and senders: "\<forall>t \<in> set (pendingTransactions bc). fromAddress t \<noteq> None"
  shows "acct_step R (abs_state bc) (abs_state bc') \<and> (\<forall>t \<in> set (pendingTransactions bc'). fromAddress t \<noteq> None)"
proof -
  from addTransaction_Inr [OF assms(1)] obtain s where s: "fromAddress t = Some s" "0 < amount t"
    "pending_spent bc s + amount t \<le> getBalanceOfAddress bc s"
    and bc': "bc' = bc\<lparr>pendingTransactions := pendingTransactions bc @ [t]\<rparr>" by blast
  have "spent s (queued (abs_state bc)) + amount t \<le> confirmed (abs_state bc) s"
    using s senders by (simp add: abs_state_def spent_transfer_of pending_spent_def)
  from acct_step.submit [OF s(2) this, of R "toAddress t"]
  have "acct_step R (abs_state bc) ((abs_state bc)\<lparr>queued := queued (abs_state bc) @ [(s, toAddress t, amount t)]\<rparr>)" .
  moreover have "(abs_state bc)\<lparr>queued := queued (abs_state bc) @ [(s, toAddress t, amount t)]\<rparr> = abs_state bc'"
    using s by (simp add: bc' abs_state_def transfer_of_def fun_eq_iff)
  ultimately show ?thesis using senders s by (simp add: bc')
qed

lemma abs_state_mine:
  assumes run: "minePendingTransactions C txNow blockNow a bc = Some (Inr bc')"
    and senders: "\<forall>t \<in> set (pendingTransactions bc). fromAddress t \<noteq> None"
  shows "abs_state bc' = seal_with (miningReward bc) a (abs_state bc) \<and>
    pendingTransactions bc' = [] \<and> miningReward bc' = miningReward bc"
proof -
  from minePendingTransactions_Inr [OF run] obtain mined where ne: "chain bc \<noteq> []"
    and bc': "bc' = bc\<lparr>chain := chain bc @ [mined], pendingTransactions := []\<rparr>" by blast
  have "getBalanceOfAddress bc' x = confirmed (seal_with (miningReward bc) a (abs_state bc)) x" for x
    using minePendingTransactions_balance [OF run, of x] senders
    by (simp add: seal_with_def abs_state_def net_transfer_of)
  with ne show ?thesis by (simp add: bc' abs_state_def seal_with_def fun_eq_iff)
qed

lemma reachable_abs:
  "reachable C bc \<Longrightarrow> acct_reachable 100 (abs_state bc) \<and> miningReward bc = 100 \<and>
     (\<forall>t \<in> set (pendingTransactions bc). fromAddress t \<noteq> None)"
proof (induction rule: reachable.induct)
  case init
  show ?case by (simp add: abs_state_init acct_reachable.init)
next
  case (step bc bc')
  from step.hyps(2) show ?case
  proof (cases rule: ledger_step.cases)
    case (add t)
    with abs_state_add [OF add, of 100] step.IH show ?thesis
      by (auto intro: acct_reachable.step dest!: addTransaction_Inr)
  next
    case (mine txNow blockNow a)
    with abs_state_mine [OF mine] step.IH show ?thesis
      by (auto intro: acct_reachable.step acct_step.seal)
  qed
qed

text \<open>
  C20: Every reachable ledger state refines a reachable state of the account machine with
  reward 100. Its balances are those of the machine, its pending transactions are the
  machine's queue, and its mined blocks are the machine's sealed batches.
\<close>

theorem reachable_refines_accounts: "reachable C bc \<Longrightarrow> acct_reachable 100 (abs_state bc)"
  by (drule reachable_abs) simp

text \<open>
  C21: In every reachable state only finitely many addresses hold money, and the balances
  add up to exactly 100 per mined block: transfers move money and only the reward
  creates it.
\<close>

theorem reachable_money_supply:
  assumes "reachable C bc"
  shows "finite {a. getBalanceOfAddress bc a \<noteq> 0} \<and>
    (\<Sum>a | getBalanceOfAddress bc a \<noteq> 0. getBalanceOfAddress bc a) = 100 * int (length (chain bc) - 1)"
proof -
  from reachable_abs [OF assms] have "acct_inv 100 (abs_state bc)"
    by (intro acct_reachable_inv) simp_all
  then show ?thesis by (simp add: acct_inv_def abs_state_def support_def)
qed

text \<open>
  C22: No address ever holds more than the money supply, 100 times the number of mined
  blocks.
\<close>

theorem reachable_balance_bound:
  "reachable C bc \<Longrightarrow> getBalanceOfAddress bc a \<le> 100 * int (length (chain bc) - 1)"
proof -
  assume "reachable C bc"
  from reachable_abs [OF this] have "acct_inv 100 (abs_state bc)"
    by (intro acct_reachable_inv) simp_all
  from acct_inv_bound [OF this, of a] show ?thesis by (simp add: abs_state_def)
qed

end
