(* ===== verification/KeyGen.thy ===== *)
theory KeyGen
  imports MainJs
begin

text \<open>
  The key generator \<open>src/src/keygenerator.js\<close>. It draws a key pair and prints its
  public key (the wallet address) and its private key (what \<open>main.js\<close> expects at
  line 7). The randomness the library draws is the argument \<open>entropy\<close>. The printed
  text is the result: one string per \<open>console.log\<close> call, whose arguments are joined
  by a space. The two Russian labels are their UTF-8 bytes, as Node writes them to
  standard output; each ends in a newline.
\<close>

text \<open>Line 11: ``Your public key (also your wallet address, which can be shared freely)''.\<close>

definition keygen_public_msg :: string where
  "keygen_public_msg = map char_of ((
     [208, 146, 208, 176, 209, 136, 32, 208, 190, 209, 130, 208, 186, 209, 128, 209, 139,
      209, 130, 209, 139, 208, 185, 32, 208, 186, 208, 187, 209, 142, 209, 135, 32, 40,
      209, 130, 208, 176, 208, 186, 208, 182, 208, 181, 32, 208, 176, 208, 180, 209, 128,
      208, 181, 209, 129, 32, 208, 178, 208, 176, 209, 136, 208, 181, 208, 179, 208, 190,
      32, 208, 186, 208, 190, 209, 136, 208, 181, 208, 187, 209, 140, 208, 186, 208, 176,
      44, 32, 208, 186, 208, 190, 209, 130, 208, 190, 209, 128, 209, 139, 208, 188, 32,
      208, 188, 208, 190, 208, 182, 208, 189, 208, 190, 32, 209, 129, 208, 178, 208, 190,
      208, 177, 208, 190, 208, 180, 208, 189, 208, 190, 32, 208, 191, 208, 190, 208, 180,
      208, 181, 208, 187, 208, 184, 209, 130, 209, 140, 209, 129, 209, 143, 41, 10]) :: nat list)"

text \<open>Line 17: ``Your private key (keep it secret! For signing transactions)''.\<close>

definition keygen_private_msg :: string where
  "keygen_private_msg = map char_of ((
     [208, 146, 208, 176, 209, 136, 32, 208, 183, 208, 176, 208, 186, 209, 128, 209, 139,
      209, 130, 209, 139, 208, 185, 32, 208, 186, 208, 187, 209, 142, 209, 135, 32, 40,
      208, 180, 208, 181, 209, 128, 208, 182, 208, 184, 209, 130, 208, 181, 32, 209, 141,
      209, 130, 208, 190, 32, 208, 178, 32, 209, 129, 208, 181, 208, 186, 209, 128, 208,
      181, 209, 130, 208, 181, 33, 32, 208, 148, 208, 187, 209, 143, 32, 208, 191, 208,
      190, 208, 180, 208, 191, 208, 184, 209, 129, 208, 184, 32, 209, 130, 209, 128, 208,
      176, 208, 189, 208, 183, 208, 176, 208, 186, 209, 134, 208, 184, 208, 185, 41, 10]) :: nat list)"

definition keygenerator :: "'k crypto \<Rightarrow> nat \<Rightarrow> string list" where
  "keygenerator C entropy =
     (let key = ec_genKeyPair C entropy;
          publicKey = ec_public C key;
          privateKey = ec_getPrivate C key
      in ['''', keygen_public_msg @ '' '' @ publicKey, '''', keygen_private_msg @ '' '' @ privateKey])"

text \<open>
  What the generator needs of the library: the private key it prints, loaded back by
  \<open>keyFromPrivate\<close>, has the public key of the generated pair.
\<close>

definition sound_keys :: "'k crypto \<Rightarrow> bool" where
  "sound_keys C \<longleftrightarrow>
     (\<forall>n. ec_public C (ec_keyFromPrivate C (ec_getPrivate C (ec_genKeyPair C n))) =
          ec_public C (ec_genKeyPair C n))"

text \<open>
  C24: Read the two printed lines back: strip the label and the space. Then the
  printed public key is the wallet address that \<open>ec.keyFromPrivate\<close> derives from
  the printed private key. Pasting the private key into \<open>main.js\<close> therefore makes
  the script mine to the printed address.
\<close>

theorem keygenerator_roundtrip:
  assumes "sound_keys C"
  shows "\<exists>pub priv.
    strip_prefix (keygen_public_msg @ '' '') (keygenerator C entropy ! 1) = Some pub \<and>
    strip_prefix (keygen_private_msg @ '' '') (keygenerator C entropy ! 3) = Some priv \<and>
    pub = ec_public C (ec_keyFromPrivate C priv)"
proof -
  let ?key = "ec_genKeyPair C entropy"
  have "keygenerator C entropy ! 1 = (keygen_public_msg @ '' '') @ ec_public C ?key"
    and "keygenerator C entropy ! 3 = (keygen_private_msg @ '' '') @ ec_getPrivate C ?key"
    by (simp_all add: keygenerator_def Let_def)
  then show ?thesis
    using assms by (simp only: strip_prefix_append) (simp add: sound_keys_def)
qed

end
