(* ===== verification/NumberRange.thy ===== *)
theory NumberRange
  imports AccountSpec
begin

text \<open>
  JavaScript numbers are IEEE doubles. On integers, \<open>+\<close> and \<open>-\<close> are exact as long as
  the operands and the result are safe integers, of magnitude at most
  \<open>Number.MAX_SAFE_INTEGER = 2^53 - 1\<close>; beyond that, results are rounded. Following
  checked arithmetic, \<open>js_add\<close> and \<open>js_sub\<close> return the exact result inside the safe
  range and \<open>None\<close> where rounding may apply. \<open>getBalanceOfAddress_checked\<close> is the loop
  of \<open>getBalanceOfAddress\<close> with that arithmetic: \<open>Some v\<close> means the double
  computation is exact and yields \<open>v\<close>.

  The theorem of this theory says the check always passes on a reachable ledger while the
  money supply (100 per mined block) is a safe integer. So the \<open>int\<close> model of balances
  is faithful to the doubles the code computes. The argument is a range invariant: every
  amount, and every value the balance loop passes through, lies between 0 and the supply.
\<close>

definition max_safe_integer :: int where
  "max_safe_integer = 2 ^ 53 - 1"

definition safe_int :: "int \<Rightarrow> bool" where
  "safe_int v \<longleftrightarrow> \<bar>v\<bar> \<le> max_safe_integer"

definition js_add :: "int \<Rightarrow> int \<Rightarrow> int option" where
  "js_add x y = (if safe_int x \<and> safe_int y \<and> safe_int (x + y) then Some (x + y) else None)"

definition js_sub :: "int \<Rightarrow> int \<Rightarrow> int option" where
  "js_sub x y = (if safe_int x \<and> safe_int y \<and> safe_int (x - y) then Some (x - y) else None)"

text \<open>Lines 190--196: \<open>balance -= trans.amount\<close>, then \<open>balance += trans.amount\<close>.\<close>

definition replay_tx_checked :: "address \<Rightarrow> int \<Rightarrow> transaction \<Rightarrow> int option" where
  "replay_tx_checked address balance tr = do {
     balance \<leftarrow> (if fromAddress tr = Some address then js_sub balance (amount tr) else Some balance);
     if toAddress tr = address then js_add balance (amount tr) else Some balance
   }"

definition getBalanceOfAddress_checked :: "blockchain \<Rightarrow> address \<Rightarrow> int option" where
  "getBalanceOfAddress_checked bc address =
     foldl (\<lambda>balance block.
              foldl (\<lambda>balance tr. Option.bind balance (\<lambda>b. replay_tx_checked address b tr))
                balance (transactions block))
       (Some 0) (chain bc)"

text \<open>The money supply, and the range invariant of a ledger.\<close>

definition money_supply :: "blockchain \<Rightarrow> int" where
  "money_supply bc = 100 * int (length (chain bc) - 1)"

definition prefix_balance :: "blockchain \<Rightarrow> address \<Rightarrow> nat \<Rightarrow> int" where
  "prefix_balance bc a k = sum_list (map (tx_net a) (take k (all_transactions bc)))"

definition num_inv :: "blockchain \<Rightarrow> bool" where
  "num_inv bc \<longleftrightarrow>
     (\<forall>t \<in> set (all_transactions bc) \<union> set (pendingTransactions bc).
        0 < amount t \<and> amount t \<le> money_supply bc) \<and>
     (\<forall>a k. 0 \<le> prefix_balance bc a k \<and> prefix_balance bc a k \<le> money_supply bc)"

subsection \<open>Every prefix of a sealed queue stays in range\<close>

lemma spent_nonneg: "\<forall>(s, r, amt) \<in> set qs. 0 < amt \<Longrightarrow> 0 \<le> spent a qs"
  by (induction qs) auto

lemma acct_inv_prefix:
  assumes inv: "acct_inv R S"
  shows "0 \<le> confirmed S a + net a (take j (queued S)) \<and>
         confirmed S a + net a (take j (queued S)) \<le> R * int (sealed S)"
proof -
  let ?qs = "queued S" let ?p = "take j ?qs"
  let ?f = "\<lambda>x. confirmed S x + net x ?p"
  have pos: "\<forall>(s, r, amt) \<in> set ?qs. 0 < amt" using inv by (simp add: acct_inv_def)
  then have posp: "\<forall>(s, r, amt) \<in> set ?p. 0 < amt" by (auto dest: in_set_takeD)
  have nonneg: "0 \<le> ?f x" for x
  proof -
    have "- spent x ?p \<le> net x ?p" using posp by (rule net_lower_bound)
    moreover have "spent x ?qs = spent x ?p + spent x (drop j ?qs)"
      by (metis append_take_drop_id spent_append)
    moreover have "\<forall>(s, r, amt) \<in> set (drop j ?qs). 0 < amt"
      using pos by (auto dest: in_set_dropD)
    then have "0 \<le> spent x (drop j ?qs)" by (rule spent_nonneg)
    moreover have "spent x ?qs \<le> confirmed S x" using inv by (simp add: acct_inv_def)
    ultimately show ?thesis by linarith
  qed
  let ?A = "support S \<union> parties ?p"
  have finA: "finite ?A" using inv by (simp add: acct_inv_def)
  have "sum ?f ?A = sum (confirmed S) ?A + (\<Sum>x\<in>?A. net x ?p)" by (simp add: sum.distrib)
  also have "sum (confirmed S) ?A = sum (confirmed S) (support S)"
    using sum_over_support [OF finA, of "confirmed S"] by (auto simp: support_def)
  also have "(\<Sum>x\<in>?A. net x ?p) = 0" using finA by (intro sum_net_closed) auto
  finally have total: "sum ?f ?A = R * int (sealed S)" using inv by (simp add: acct_inv_def)
  have "?f a \<le> R * int (sealed S)"
  proof (cases "a \<in> ?A")
    case True
    with finA nonneg have "?f a \<le> sum ?f ?A" by (intro member_le_sum) auto
    with total show ?thesis by simp
  next
    case False
    then have "?f a = 0" by (simp add: support_def net_outside)
    moreover have "0 \<le> sum ?f ?A" using nonneg by (intro sum_nonneg) auto
    ultimately show ?thesis using total by simp
  qed
  with nonneg show ?thesis by blast
qed

subsection \<open>The range invariant of reachable ledgers\<close>

lemma acct_inv_reachable: "reachable C bc \<Longrightarrow> acct_inv 100 (abs_state bc)"
  by (drule reachable_abs) (auto intro: acct_reachable_inv)

lemma balance_le_supply: "reachable C bc \<Longrightarrow> getBalanceOfAddress bc a \<le> money_supply bc"
  using acct_inv_bound [OF acct_inv_reachable, of C bc a] by (simp add: abs_state_def money_supply_def)

lemma balance_nonneg: "reachable C bc \<Longrightarrow> 0 \<le> getBalanceOfAddress bc a"
  using acct_inv_reachable [of C bc] by (simp add: acct_inv_def abs_state_def)

lemma prefix_balance_all:
  "length (all_transactions bc) \<le> k \<Longrightarrow> prefix_balance bc a k = getBalanceOfAddress bc a"
  by (simp add: prefix_balance_def getBalanceOfAddress_net)

lemma num_inv_init: "num_inv (new_Blockchain C)"
  by (simp add: num_inv_def prefix_balance_def all_transactions_def money_supply_def
      new_Blockchain_def createGenesisBlock_def)

lemma num_inv_add:
  assumes inv: "num_inv bc" and reach: "reachable C bc" and run: "addTransaction C t bc = Inr bc'"
  shows "num_inv bc'"
proof -
  from addTransaction_Inr [OF run] obtain s where "0 < amount t"
    and cover: "pending_spent bc s + amount t \<le> getBalanceOfAddress bc s"
    and bc': "bc' = bc\<lparr>pendingTransactions := pendingTransactions bc @ [t]\<rparr>" by blast
  have "\<forall>t \<in> set (pendingTransactions bc). 0 < amount t" using inv by (simp add: num_inv_def)
  then have "0 \<le> pending_spent bc s"
    unfolding pending_spent_def by (intro sum_list_map_nonneg) force
  with cover balance_le_supply [OF reach, of s] have "amount t \<le> money_supply bc" by linarith
  with inv \<open>0 < amount t\<close> show ?thesis
    by (auto simp: num_inv_def bc' prefix_balance_def all_transactions_def money_supply_def)
qed

lemma num_inv_mine:
  assumes inv: "num_inv bc" and reach: "reachable C bc"
    and run: "minePendingTransactions C txNow blockNow a bc = Some (Inr bc')"
  shows "num_inv bc'"
proof -
  let ?r = "new_Transaction None a (miningReward bc) txNow"
  let ?P = "pendingTransactions bc"
  from minePendingTransactions_Inr [OF run] obtain mined where ne: "chain bc \<noteq> []"
    and mb: "mineBlock C (difficulty bc) (new_Block C blockNow (?P @ [?r]) (hash (last (chain bc)))) =
      Some mined"
    and bc': "bc' = bc\<lparr>chain := chain bc @ [mined], pendingTransactions := []\<rparr>" by blast
  from mined_block [OF mb] have txs: "transactions mined = ?P @ [?r]" by blast
  from reachable_abs [OF reach] have reward: "miningReward bc = 100"
    and senders: "\<forall>t \<in> set ?P. fromAddress t \<noteq> None" by simp_all
  have reach': "reachable C bc'" by (rule reachable.step [OF reach ledger_step.mine [OF run]])
  have all': "all_transactions bc' = all_transactions bc @ ?P @ [?r]"
    by (simp add: bc' all_transactions_def txs)
  have "1 \<le> length (chain bc)" using ne by (cases "chain bc") auto
  then have ms': "money_supply bc' = money_supply bc + 100"
    by (simp add: bc' money_supply_def of_nat_diff algebra_simps)
  have pend': "pendingTransactions bc' = []" by (simp add: bc')
  have amounts: "\<forall>t \<in> set (all_transactions bc') \<union> set (pendingTransactions bc').
      0 < amount t \<and> amount t \<le> money_supply bc'"
  proof -
    from inv have "\<forall>t \<in> set (all_transactions bc). 0 < amount t \<and> amount t \<le> money_supply bc"
      and "\<forall>t \<in> set ?P. 0 < amount t \<and> amount t \<le> money_supply bc"
      by (simp_all add: num_inv_def)
    moreover have "0 \<le> money_supply bc" by (simp add: money_supply_def)
    ultimately show ?thesis
      unfolding all' pend' ms' by (auto simp: reward new_Transaction_def)
  qed
  have "0 \<le> prefix_balance bc' x k \<and> prefix_balance bc' x k \<le> money_supply bc'" for x k
  proof -
    let ?n = "length (all_transactions bc)"
    show ?thesis
    proof (cases "k \<le> ?n")
      case True
      then have "prefix_balance bc' x k = prefix_balance bc x k" by (simp add: prefix_balance_def all')
      moreover from inv have "0 \<le> prefix_balance bc x k \<and> prefix_balance bc x k \<le> money_supply bc"
        by (simp add: num_inv_def)
      ultimately show ?thesis using ms' by linarith
    next
      case past: False
      show ?thesis
      proof (cases "k \<le> ?n + length ?P")
        case True
        define j where "j = k - ?n"
        with past True have k: "k = ?n + j" "j \<le> length ?P" by auto
        have "set (take j ?P) \<subseteq> set ?P" by (rule set_take_subset)
        with senders have "net x (map transfer_of (take j ?P)) = sum_list (map (tx_net x) (take j ?P))"
          by (intro net_transfer_of) auto
        then have "prefix_balance bc' x k =
            confirmed (abs_state bc) x + net x (take j (queued (abs_state bc)))"
          using k by (simp add: prefix_balance_def all' abs_state_def take_map getBalanceOfAddress_net)
        moreover have "100 * int (sealed (abs_state bc)) = money_supply bc"
          by (simp add: abs_state_def money_supply_def)
        ultimately show ?thesis
          using acct_inv_prefix [OF acct_inv_reachable [OF reach], of x j] ms' by linarith
      next
        case False
        then have "length (all_transactions bc') \<le> k" by (simp add: all')
        then show ?thesis
          using balance_nonneg [OF reach'] balance_le_supply [OF reach'] by (simp add: prefix_balance_all)
      qed
    qed
  qed
  with amounts show ?thesis by (simp add: num_inv_def)
qed

lemma reachable_num_inv: "reachable C bc \<Longrightarrow> num_inv bc"
proof (induction rule: reachable.induct)
  case init
  show ?case by (rule num_inv_init)
next
  case (step bc bc')
  from step.hyps(2) show ?case
    by (cases rule: ledger_step.cases) (auto intro: num_inv_add num_inv_mine step.IH step.hyps(1))
qed

subsection \<open>The checked loop computes the exact balance\<close>

lemma foldl_nested:
  "foldl (\<lambda>acc blk. foldl f acc (g blk)) a bs = foldl f a (concat (map g bs))"
  by (induction bs arbitrary: a) simp_all

lemma replay_tx_checked_exact:
  assumes "0 < amount t" and "amount t \<le> S" and "S \<le> max_safe_integer"
    and "0 \<le> b" and "b \<le> S" and "0 \<le> b + tx_net a t" and "b + tx_net a t \<le> S"
  shows "replay_tx_checked a b t = Some (b + tx_net a t)"
  using assms
  by (auto simp: replay_tx_checked_def js_add_def js_sub_def safe_int_def tx_net_def split: if_splits)

lemma replay_checked_flat:
  assumes amounts: "\<forall>t \<in> set txs. 0 < amount t \<and> amount t \<le> S" and safe: "S \<le> max_safe_integer"
    and range: "\<forall>k. 0 \<le> b + sum_list (map (tx_net a) (take k txs)) \<and>
                    b + sum_list (map (tx_net a) (take k txs)) \<le> S"
  shows "foldl (\<lambda>acc tr. Option.bind acc (\<lambda>v. replay_tx_checked a v tr)) (Some b) txs =
         Some (b + sum_list (map (tx_net a) txs))"
  using amounts range
proof (induction txs arbitrary: b)
  case Nil
  then show ?case by simp
next
  case (Cons t ts)
  from Cons.prems(2) [rule_format, of 0] Cons.prems(2) [rule_format, of 1]
  have "0 \<le> b" "b \<le> S" "0 \<le> b + tx_net a t" "b + tx_net a t \<le> S" by simp_all
  with Cons.prems(1) safe have step: "replay_tx_checked a b t = Some (b + tx_net a t)"
    by (intro replay_tx_checked_exact) auto
  have "\<forall>k. 0 \<le> (b + tx_net a t) + sum_list (map (tx_net a) (take k ts)) \<and>
            (b + tx_net a t) + sum_list (map (tx_net a) (take k ts)) \<le> S"
  proof
    fix k
    from Cons.prems(2) [rule_format, of "Suc k"] show
      "0 \<le> (b + tx_net a t) + sum_list (map (tx_net a) (take k ts)) \<and>
       (b + tx_net a t) + sum_list (map (tx_net a) (take k ts)) \<le> S"
      by (simp add: add.assoc)
  qed
  with Cons.IH [of "b + tx_net a t"] Cons.prems(1) step show ?case by (simp add: add.assoc)
qed

text \<open>
  C31: On every reachable ledger whose money supply is a safe integer, the balance loop of
  getBalanceOfAddress computes with doubles exactly. Every amount it adds or subtracts, and
  every intermediate balance, is a safe integer, and the result is the integer balance.
\<close>

theorem getBalanceOfAddress_checked_exact:
  assumes "reachable C bc" and "100 * int (length (chain bc) - 1) \<le> max_safe_integer"
  shows "getBalanceOfAddress_checked bc a = Some (getBalanceOfAddress bc a)"
proof -
  from reachable_num_inv [OF assms(1)] have inv: "num_inv bc" .
  have "foldl (\<lambda>acc tr. Option.bind acc (\<lambda>v. replay_tx_checked a v tr)) (Some 0) (all_transactions bc) =
        Some (0 + sum_list (map (tx_net a) (all_transactions bc)))"
  proof (rule replay_checked_flat)
    show "\<forall>t \<in> set (all_transactions bc). 0 < amount t \<and> amount t \<le> money_supply bc"
      using inv by (simp add: num_inv_def)
    show "money_supply bc \<le> max_safe_integer" using assms(2) by (simp add: money_supply_def)
    show "\<forall>k. 0 \<le> 0 + sum_list (map (tx_net a) (take k (all_transactions bc))) \<and>
              0 + sum_list (map (tx_net a) (take k (all_transactions bc))) \<le> money_supply bc"
      using inv by (simp add: num_inv_def prefix_balance_def)
  qed
  then show ?thesis
    by (simp add: getBalanceOfAddress_checked_def foldl_nested all_transactions_def getBalanceOfAddress_net)
qed

text \<open>
  C32: In every reachable state, every amount on the chain or in the pending buffer is
  positive and at most the money supply, 100 times the number of mined blocks. So while
  the supply is below 10^21, JavaScript prints every amount in plain decimal, as
  int_str does.
\<close>

theorem reachable_amounts_in_range:
  assumes "reachable C bc" and "t \<in> set (all_transactions bc) \<union> set (pendingTransactions bc)"
  shows "0 < amount t \<and> amount t \<le> 100 * int (length (chain bc) - 1)"
  using reachable_num_inv [OF assms(1)] assms(2) by (auto simp: num_inv_def money_supply_def)

end
