(* ===== verification/ObjectStore.thy ===== *)
theory ObjectStore
  imports Ledger
begin

text \<open>
  Transactions are JavaScript objects, and the ledger holds references to them:
  \<open>addTransaction\<close> pushes the caller's object onto \<open>pendingTransactions\<close>
  (\<open>src/src/blockchain.js\<close> line 181), \<open>minePendingTransactions\<close> hands that array
  to the new block (lines 123--140), and \<open>signTransaction\<close> writes the signature into
  the object it is called on (line 36). The caller keeps its reference and every field of
  a transaction is a public, writable property.
  This theory models the objects explicitly. The store \<open>heap\<close> is a list of transaction
  objects, and a reference is an index into it. Allocation appends (\<open>o_alloc\<close>). A block
  object (\<open>oblock\<close>) and the pending buffer hold references. The value-level
  \<open>blockchain\<close> of the other theories is the view \<open>view\<close> that reads every reference
  through the store.
  The step relation \<open>o_step\<close> has one actor, which calls the library and may also
  write transaction objects. Which objects it may write is a parameter: those outside
  the ledger (\<open>client_owned\<close>, the ownership discipline of spec section 3), or any
  object (\<open>any_object\<close>, what JavaScript permits).
\<close>

type_synonym tref = nat

text \<open>A block object: the fields of \<open>block\<close>, with \<open>transactions\<close> an array of
  references.\<close>

record oblock =
  o_previousHash :: string
  o_timestamp :: int
  o_transactions :: "tref list"
  o_nonce :: nat
  o_hash :: string

record ostate =
  heap :: "transaction list"
  o_chain :: "oblock list"
  o_difficulty :: nat
  o_pendingTransactions :: "tref list"
  o_miningReward :: int

definition deref :: "transaction list \<Rightarrow> tref list \<Rightarrow> transaction list" where
  "deref h rs = map ((!) h) rs"

definition view_block :: "transaction list \<Rightarrow> oblock \<Rightarrow> block" where
  "view_block h ob =
     \<lparr>previousHash = o_previousHash ob, timestamp = o_timestamp ob,
      transactions = deref h (o_transactions ob), nonce = o_nonce ob, hash = o_hash ob\<rparr>"

definition view :: "ostate \<Rightarrow> blockchain" where
  "view s =
     \<lparr>chain = map (view_block (heap s)) (o_chain s), difficulty = o_difficulty s,
      pendingTransactions = deref (heap s) (o_pendingTransactions s),
      miningReward = o_miningReward s\<rparr>"

text \<open>The block object whose fields are those of \<open>b\<close> and whose transaction array holds
  the references \<open>rs\<close>.\<close>

definition to_oblock :: "block \<Rightarrow> tref list \<Rightarrow> oblock" where
  "to_oblock b rs =
     \<lparr>o_previousHash = previousHash b, o_timestamp = timestamp b, o_transactions = rs,
      o_nonce = nonce b, o_hash = hash b\<rparr>"

definition sealed_refs :: "ostate \<Rightarrow> tref list" where
  "sealed_refs s = concat (map o_transactions (o_chain s))"

definition ledger_refs :: "ostate \<Rightarrow> tref list" where
  "ledger_refs s = o_pendingTransactions s @ sealed_refs s"

text \<open>Every reference the ledger holds points into the store.\<close>

definition o_wf :: "ostate \<Rightarrow> bool" where
  "o_wf s \<longleftrightarrow> (\<forall>r \<in> set (ledger_refs s). r < length (heap s))"

definition o_alloc :: "transaction \<Rightarrow> ostate \<Rightarrow> tref \<times> ostate" where
  "o_alloc t s = (length (heap s), s\<lparr>heap := heap s @ [t]\<rparr>)"

text \<open>\<open>new Transaction(fromAddress, toAddress, amount)\<close> (lines 7--12).\<close>

definition o_new_Transaction ::
  "address option \<Rightarrow> address \<Rightarrow> int \<Rightarrow> int \<Rightarrow> ostate \<Rightarrow> tref \<times> ostate" where
  "o_new_Transaction fromA toA amt now s = o_alloc (new_Transaction fromA toA amt now) s"

text \<open>\<open>tx.signTransaction(signingKey)\<close> (lines 28--37): the signature is stored in the
  object itself.\<close>

definition o_signTransaction :: "'k crypto \<Rightarrow> 'k \<Rightarrow> tref \<Rightarrow> ostate \<Rightarrow> error + ostate" where
  "o_signTransaction C signingKey r s =
     (case signTransaction C signingKey (heap s ! r) of
        Inl e \<Rightarrow> Inl e
      | Inr t \<Rightarrow> Inr (s\<lparr>heap := (heap s)[r := t]\<rparr>))"

text \<open>\<open>addTransaction(transaction)\<close> (lines 143--183): the checks read the object and the
  ledger as they are now; on success the reference itself is pushed.\<close>

definition o_addTransaction :: "'k crypto \<Rightarrow> tref \<Rightarrow> ostate \<Rightarrow> error + ostate" where
  "o_addTransaction C r s =
     (case addTransaction C (heap s ! r) (view s) of
        Inl e \<Rightarrow> Inl e
      | Inr _ \<Rightarrow> Inr (s\<lparr>o_pendingTransactions := o_pendingTransactions s @ [r]\<rparr>))"

text \<open>\<open>minePendingTransactions(miningRewardAddress)\<close> (lines 122--141): the reward object
  is allocated and its reference pushed, the block object takes the pending array, is
  mined, and is appended; the buffer is then a fresh empty array.\<close>

definition o_minePendingTransactions ::
  "'k crypto \<Rightarrow> int \<Rightarrow> int \<Rightarrow> address \<Rightarrow> ostate \<Rightarrow> ostate js_result" where
  "o_minePendingTransactions C txNow blockNow miningRewardAddress s =
     (let (rewardTx, s1) = o_new_Transaction None miningRewardAddress (o_miningReward s) txNow s;
          pending = o_pendingTransactions s1 @ [rewardTx]
      in if o_chain s1 = [] then Some (Inl TypeError)
         else
           (let block = new_Block C blockNow (deref (heap s1) pending) (o_hash (last (o_chain s1)))
            in map_option
                 (\<lambda>mined. Inr (s1\<lparr>o_chain := o_chain s1 @ [to_oblock mined pending],
                                  o_pendingTransactions := []\<rparr>))
                 (mineBlock C (o_difficulty s1) block)))"

definition o_new_Blockchain :: "'k crypto \<Rightarrow> ostate" where
  "o_new_Blockchain C =
     \<lparr>heap = [], o_chain = [to_oblock (createGenesisBlock C) []], o_difficulty = 2,
      o_pendingTransactions = [], o_miningReward = 100\<rparr>"

text \<open>Which objects the actor may write or re-sign.\<close>

definition client_owned :: "ostate \<Rightarrow> tref \<Rightarrow> bool" where
  "client_owned s r \<longleftrightarrow> r < length (heap s) \<and> r \<notin> set (ledger_refs s)"

definition any_object :: "ostate \<Rightarrow> tref \<Rightarrow> bool" where
  "any_object s r \<longleftrightarrow> r < length (heap s)"

inductive o_step :: "'k crypto \<Rightarrow> (ostate \<Rightarrow> tref \<Rightarrow> bool) \<Rightarrow> ostate \<Rightarrow> ostate \<Rightarrow> bool"
  for C W where
  new: "o_new_Transaction fromA toA amt now s = (r, s') \<Longrightarrow> o_step C W s s'"
| sign: "W s r \<Longrightarrow> o_signTransaction C k r s = Inr s' \<Longrightarrow> o_step C W s s'"
| assign: "W s r \<Longrightarrow> o_step C W s (s\<lparr>heap := (heap s)[r := t]\<rparr>)"
| add: "r < length (heap s) \<Longrightarrow> o_addTransaction C r s = Inr s' \<Longrightarrow> o_step C W s s'"
| mine: "o_minePendingTransactions C txNow blockNow a s = Some (Inr s') \<Longrightarrow> o_step C W s s'"

inductive o_reach :: "'k crypto \<Rightarrow> (ostate \<Rightarrow> tref \<Rightarrow> bool) \<Rightarrow> ostate \<Rightarrow> bool" for C W where
  init: "o_reach C W (o_new_Blockchain C)"
| step: "o_reach C W s \<Longrightarrow> o_step C W s s' \<Longrightarrow> o_reach C W s'"

text \<open>A caller's script as data: one action per call, with the step it makes. An
  action that throws, or that writes an object the caller may not write, stops the run.
  \<open>AssignTx r f\<close> is a sequence of property assignments to the object \<open>r\<close>, such
  as \<open>tx.amount = 1000\<close>.\<close>

datatype 'k o_action =
  NewTx "address option" address int int
| SignTx 'k tref
| AssignTx tref "transaction \<Rightarrow> transaction"
| AddTx tref
| MineTx int int address

fun o_exec ::
  "'k crypto \<Rightarrow> (ostate \<Rightarrow> tref \<Rightarrow> bool) \<Rightarrow> 'k o_action \<Rightarrow> ostate \<Rightarrow> ostate option" where
  "o_exec C W (NewTx fromA toA amt now) s = Some (snd (o_new_Transaction fromA toA amt now s))"
| "o_exec C W (SignTx k r) s =
     (if W s r then (case o_signTransaction C k r s of Inl _ \<Rightarrow> None | Inr s' \<Rightarrow> Some s')
      else None)"
| "o_exec C W (AssignTx r f) s =
     (if W s r then Some (s\<lparr>heap := (heap s)[r := f (heap s ! r)]\<rparr>) else None)"
| "o_exec C W (AddTx r) s =
     (if r < length (heap s)
      then (case o_addTransaction C r s of Inl _ \<Rightarrow> None | Inr s' \<Rightarrow> Some s')
      else None)"
| "o_exec C W (MineTx txNow blockNow a) s =
     (case o_minePendingTransactions C txNow blockNow a s of
        Some (Inr s') \<Rightarrow> Some s'
      | _ \<Rightarrow> None)"

fun o_run ::
  "'k crypto \<Rightarrow> (ostate \<Rightarrow> tref \<Rightarrow> bool) \<Rightarrow> 'k o_action list \<Rightarrow> ostate \<Rightarrow> ostate option" where
  "o_run C W [] s = Some s"
| "o_run C W (act # acts) s = Option.bind (o_exec C W act s) (o_run C W acts)"

subsection \<open>Reading through the store\<close>

lemma deref_append [simp]:
  "\<forall>r \<in> set rs. r < length h \<Longrightarrow> deref (h @ ts) rs = deref h rs"
  by (simp add: deref_def nth_append)

lemma deref_update [simp]: "r \<notin> set rs \<Longrightarrow> deref (h[r := t]) rs = deref h rs"
  by (clarsimp simp: deref_def) (metis nth_list_update_neq)

lemma deref_Nil [simp]: "deref h [] = []"
  by (simp add: deref_def)

lemma deref_snoc [simp]: "deref h (rs @ [r]) = deref h rs @ [h ! r]"
  by (simp add: deref_def)

lemma view_block_to_oblock [simp]:
  "transactions b = deref h rs \<Longrightarrow> view_block h (to_oblock b rs) = b"
  by (simp add: view_block_def to_oblock_def)

lemma ledger_refs_set:
  "set (ledger_refs s) = set (o_pendingTransactions s) \<union> (\<Union>ob \<in> set (o_chain s). set (o_transactions ob))"
  by (simp add: ledger_refs_def sealed_refs_def)

text \<open>The view depends only on the objects the ledger refers to.\<close>

lemma view_heap_cong:
  assumes "\<forall>r \<in> set (ledger_refs s). heap s' ! r = heap s ! r"
    and "o_chain s' = o_chain s" "o_pendingTransactions s' = o_pendingTransactions s"
    and "o_difficulty s' = o_difficulty s" "o_miningReward s' = o_miningReward s"
  shows "view s' = view s"
  using assms by (auto simp: view_def view_block_def deref_def ledger_refs_set)

lemma view_alloc: "o_wf s \<Longrightarrow> view (s\<lparr>heap := heap s @ ts\<rparr>) = view s"
  by (rule view_heap_cong) (auto simp: o_wf_def nth_append)

lemma view_write: "r \<notin> set (ledger_refs s) \<Longrightarrow> view (s\<lparr>heap := (heap s)[r := t]\<rparr>) = view s"
  by (rule view_heap_cong) (auto intro: nth_list_update_neq)

lemma o_wf_alloc: "o_wf s \<Longrightarrow> o_wf (s\<lparr>heap := heap s @ ts\<rparr>)"
  unfolding o_wf_def ledger_refs_def sealed_refs_def by (simp add: trans_less_add1)

lemma o_wf_write: "o_wf s \<Longrightarrow> o_wf (s\<lparr>heap := (heap s)[r := t]\<rparr>)"
  by (simp add: o_wf_def ledger_refs_def sealed_refs_def)

subsection \<open>The library calls, read through the store\<close>

lemma view_o_new_Blockchain: "view (o_new_Blockchain C) = new_Blockchain C"
  by (simp add: view_def o_new_Blockchain_def new_Blockchain_def deref_def createGenesisBlock_def)

lemma o_wf_o_new_Blockchain: "o_wf (o_new_Blockchain C)"
  by (simp add: o_wf_def o_new_Blockchain_def ledger_refs_def sealed_refs_def to_oblock_def)

lemma o_addTransaction_view:
  assumes run: "o_addTransaction C r s = Inr s'"
  shows "addTransaction C (heap s ! r) (view s) = Inr (view s') \<and>
    s' = s\<lparr>o_pendingTransactions := o_pendingTransactions s @ [r]\<rparr>"
proof -
  from run obtain bc' where a: "addTransaction C (heap s ! r) (view s) = Inr bc'"
    and s': "s' = s\<lparr>o_pendingTransactions := o_pendingTransactions s @ [r]\<rparr>"
    by (auto simp: o_addTransaction_def split: sum.splits)
  from addTransaction_Inr [OF a]
  have "bc' = view s\<lparr>pendingTransactions := pendingTransactions (view s) @ [heap s ! r]\<rparr>" by blast
  then have "bc' = view s'" by (simp add: s' view_def)
  with a s' show ?thesis by simp
qed

lemma o_minePendingTransactions_view:
  assumes wf: "o_wf s" and run: "o_minePendingTransactions C txNow blockNow a s = Some (Inr s')"
  shows "minePendingTransactions C txNow blockNow a (view s) = Some (Inr (view s')) \<and> o_wf s'"
proof -
  let ?t = "new_Transaction None a (o_miningReward s) txNow"
  let ?h = "heap s @ [?t]"
  let ?pending = "o_pendingTransactions s @ [length (heap s)]"
  let ?b = "new_Block C blockNow (deref ?h ?pending) (o_hash (last (o_chain s)))"
  from run obtain mined where ne: "o_chain s \<noteq> []"
    and mb: "mineBlock C (o_difficulty s) ?b = Some mined"
    and s': "s' = s\<lparr>heap := ?h, o_chain := o_chain s @ [to_oblock mined ?pending],
                    o_pendingTransactions := []\<rparr>"
    by (auto simp: o_minePendingTransactions_def o_new_Transaction_def o_alloc_def Let_def
        split: if_splits)
  have pend: "deref ?h ?pending = pendingTransactions (view s) @ [?t]"
    using wf by (simp add: view_def o_wf_def ledger_refs_def)
  have latest: "o_hash (last (o_chain s)) = hash (last (chain (view s)))"
    using ne by (simp add: view_def view_block_def last_map)
  have "chain (view (s\<lparr>heap := ?h\<rparr>)) = chain (view s)" by (simp only: view_alloc [OF wf])
  then have old: "map (view_block ?h) (o_chain s) = chain (view s)" by (simp add: view_def)
  from mined_block [OF mb] have "transactions mined = deref ?h ?pending" by simp
  then have "view s' = view s\<lparr>chain := chain (view s) @ [mined], pendingTransactions := []\<rparr>"
    using old by (simp add: s' view_def)
  moreover have "mineBlock C (difficulty (view s))
      (new_Block C blockNow (pendingTransactions (view s) @ [?t]) (hash (last (chain (view s))))) =
      Some mined"
    using mb by (simp only: pend latest) (simp add: view_def)
  moreover have "chain (view s) \<noteq> []" "miningReward (view s) = o_miningReward s"
    using ne by (simp_all add: view_def)
  moreover have "o_wf s'"
  proof -
    have "set (ledger_refs s') \<subseteq> insert (length (heap s)) (set (ledger_refs s))"
      by (auto simp: s' ledger_refs_set to_oblock_def)
    moreover have "length (heap s') = Suc (length (heap s))" by (simp add: s')
    ultimately show ?thesis using wf unfolding o_wf_def by (auto simp: less_Suc_eq)
  qed
  ultimately show ?thesis
    by (simp add: minePendingTransactions_def getLatestBlock_def Let_def)
qed

text \<open>Under the ownership discipline every step of the store is a step of the value
  ledger or leaves its view unchanged.\<close>

lemma o_step_owned:
  assumes step: "o_step C client_owned s s'" and wf: "o_wf s"
  shows "o_wf s' \<and> (view s' = view s \<or> ledger_step C (view s) (view s'))"
  using step
proof cases
  case (new fromA toA amt now r)
  then have "s' = s\<lparr>heap := heap s @ [new_Transaction fromA toA amt now]\<rparr>"
    by (simp add: o_new_Transaction_def o_alloc_def)
  with wf show ?thesis by (simp add: view_alloc o_wf_alloc)
next
  case (sign r k)
  then obtain t where "s' = s\<lparr>heap := (heap s)[r := t]\<rparr>"
    by (auto simp: o_signTransaction_def split: sum.splits)
  with sign(1) wf show ?thesis by (simp add: client_owned_def view_write o_wf_write)
next
  case (assign r t)
  with wf show ?thesis by (simp add: client_owned_def view_write o_wf_write)
next
  case (add r)
  from o_addTransaction_view [OF add(2)] have "ledger_step C (view s) (view s')"
    by (blast intro: ledger_step.add)
  moreover have "o_wf s'"
    using o_addTransaction_view [OF add(2)] add(1) wf
    by (simp add: o_wf_def ledger_refs_def sealed_refs_def)
  ultimately show ?thesis by simp
next
  case (mine txNow blockNow a)
  from o_minePendingTransactions_view [OF wf mine] show ?thesis
    by (blast intro: ledger_step.mine)
qed

lemma o_reach_owned: "o_reach C client_owned s \<Longrightarrow> o_wf s \<and> reachable C (view s)"
proof (induction rule: o_reach.induct)
  case init
  show ?case by (simp add: view_o_new_Blockchain o_wf_o_new_Blockchain reachable.init)
next
  case (step s s')
  with o_step_owned [OF step.hyps(2)] show ?case by (auto intro: reachable.step)
qed

text \<open>
  C34: Refinement of the value-level ledger by the object store. If the caller never
  writes or re-signs a transaction object once the ledger holds a reference to it, every
  state the store reaches is, read through its references, a reachable state of the
  value-level ledger, so every theorem about reachable ledgers holds of it.
\<close>

theorem o_reach_refines: "o_reach C client_owned s \<Longrightarrow> reachable C (view s)"
  using o_reach_owned by blast

subsection \<open>Writes to sealed transactions\<close>

text \<open>With an injective hash, two chains that isChainValid accepts and that store the
  same hashes at every position are equal.\<close>

lemma accepted_same_hashes:
  assumes inj: "inj (sha256 C)" and spec: "chain_valid_spec C bs"
    and spec': "chain_valid_spec C bs'" and len: "length bs' = length bs"
    and same: "\<forall>i < length bs. hash (bs' ! i) = hash (bs ! i)"
  shows "bs' = bs"
proof (rule nth_equalityI)
  show "length bs' = length bs" by (rule len)
next
  fix i assume i: "i < length bs'"
  show "bs' ! i = bs ! i"
  proof (cases "i = 0")
    case True
    with spec spec' show ?thesis by (simp add: chain_valid_spec_hd)
  next
    case False
    with i len have "block_ok C (bs' ! (i - 1)) (bs' ! i)" "block_ok C (bs ! (i - 1)) (bs ! i)"
      using chain_valid_spec_at [OF spec'] chain_valid_spec_at [OF spec] by simp_all
    moreover have "hash (bs' ! (i - 1)) = hash (bs ! (i - 1))" "hash (bs' ! i) = hash (bs ! i)"
      using same i len by simp_all
    ultimately have p: "previousHash (bs' ! i) = previousHash (bs ! i)"
      and c: "block_calculateHash C (bs' ! i) = block_calculateHash C (bs ! i)"
      by (simp_all add: block_ok_def)
    from block_calculateHash_inj [OF inj c p] p \<open>hash (bs' ! i) = hash (bs ! i)\<close> show ?thesis
      by (cases "bs' ! i", cases "bs ! i") simp
  qed
qed

text \<open>
  C36: Spec section 8, through the references: suppose SHA-256 is injective and
  isChainValid() accepts the chain. Then writing a different value into a transaction
  object that a mined block refers to makes isChainValid() stop accepting it. The block
  keeps its stored hash, which no longer matches.
\<close>

theorem sealed_write_detected:
  assumes inj: "inj (sha256 C)" and wf: "o_wf s"
    and valid: "isChainValid C (view s) = Inr True"
    and r: "r \<in> set (sealed_refs s)" and t: "t \<noteq> heap s ! r"
  shows "isChainValid C (view (s\<lparr>heap := (heap s)[r := t]\<rparr>)) \<noteq> Inr True"
proof
  let ?s' = "s\<lparr>heap := (heap s)[r := t]\<rparr>"
  assume "isChainValid C (view ?s') = Inr True"
  then have spec': "chain_valid_spec C (chain (view ?s'))" by (simp add: isChainValid_iff)
  from valid have spec: "chain_valid_spec C (chain (view s))" by (simp add: isChainValid_iff)
  have "chain (view ?s') = chain (view s)"
    by (rule accepted_same_hashes [OF inj spec spec']) (simp_all add: view_def view_block_def)
  moreover obtain ob where ob: "ob \<in> set (o_chain s)" "r \<in> set (o_transactions ob)"
    using r by (auto simp: sealed_refs_def)
  ultimately have "deref ((heap s)[r := t]) (o_transactions ob) = deref (heap s) (o_transactions ob)"
    by (simp add: view_def view_block_def)
  with ob(2) have "(heap s)[r := t] ! r = heap s ! r" by (simp add: deref_def)
  moreover have "r < length (heap s)" using wf ob by (auto simp: o_wf_def ledger_refs_set)
  ultimately show False using t by simp
qed

subsection \<open>Scripts\<close>

lemma o_exec_step: "o_exec C W act s = Some s' \<Longrightarrow> o_step C W s s'"
  by (cases act)
     (auto intro: o_step.intros o_step.new [OF surjective_pairing]
       split: if_splits sum.splits option.splits)

lemma o_run_reach: "o_reach C W s \<Longrightarrow> o_run C W acts s = Some s' \<Longrightarrow> o_reach C W s'"
proof (induction acts arbitrary: s)
  case (Cons act acts)
  then obtain s1 where "o_exec C W act s = Some s1" "o_run C W acts s1 = Some s'"
    by (auto split: Option.bind_splits)
  with Cons show ?case by (blast intro: o_reach.step o_exec_step)
qed simp

end
