(* ===== verification/Spec2Isabelle.thy ===== *)
theory Spec2Isabelle
  imports MainJs AccountSpec KeyGen NumberRange ObjectStore
begin

text \<open>
  \<^bold>\<open>A verified model of the blockchain_system ledger.\<close>

  The program (\<open>src/src\<close>) is a single-process proof-of-work ledger.
  \<^item> \<open>blockchain.js\<close> holds three classes. \<open>Transaction\<close> is a signed transfer.
    \<open>Block\<close> is a batch of transactions sealed by a nonce search. \<open>Blockchain\<close> holds
    the blocks, a pending buffer, the difficulty and the reward; it admits transactions
    (\<open>addTransaction\<close>), mines the buffer into a block (\<open>minePendingTransactions\<close>),
    answers balance and history queries by replaying the chain, and validates it
    (\<open>isChainValid\<close>).
  \<^item> \<open>main.js\<close> is a demonstration script that drives these operations.
  \<^item> \<open>keygenerator.js\<close> prints a fresh key pair, whose private key \<open>main.js\<close>
    expects.

  \<^bold>\<open>Theories, in import order.\<close>
  \<^item> \<open>Prelude\<close>: the error datatype (one constructor per \<open>throw\<close> site, plus
    \<open>TypeError\<close> and \<open>LibraryError\<close>), the crypto capability as a record of functions (\<open>sha256\<close>,
    \<open>ec_sign\<close>, \<open>ec_verify\<close>, \<open>ec_public\<close>, \<open>ec_keyFromPrivate\<close>,
    \<open>ec_genKeyPair\<close>, \<open>ec_getPrivate\<close>), the type
    \<open>'a js_result = (error + 'a) option\<close> of a statement and its sequencing
    \<open>js_bind\<close>, and shared list lemmas.
  \<^item> \<open>JsValue\<close>: what the hashes read of the JavaScript runtime. It covers the decimal
    string of an integral \<open>Number\<close> (\<open>int_str\<close>, \<open>nat_str\<close>), \<open>String(null)\<close>
    (\<open>js_string_of\<close>), and \<open>JSON.stringify\<close> of strings and arrays (\<open>json_str\<close>,
    \<open>json_array\<close>). Each printer has a reader, and round-trip lemmas make the
    serialisations injective.
  \<^item> \<open>Transaction\<close> (blockchain.js lines 6--50): the record, the constructor,
    \<open>tx_calculateHash\<close>, \<open>signTransaction\<close>, \<open>isValid\<close> and \<open>json_tx\<close>
    (\<open>JSON.stringify\<close> of a transaction).
  \<^item> \<open>Block\<close> (lines 52--103): the record, the constructor, \<open>block_calculateHash\<close>,
    \<open>mineBlock\<close>, \<open>hasValidTransactions\<close> (loop \<open>txs_valid\<close>) and \<open>json_block\<close>.
  \<^item> \<open>Blockchain\<close> (lines 105--246): the state record, the genesis block, the
    constructor, \<open>getLatestBlock\<close>, the two mutators, the two queries (\<open>foldl\<close>s
    over blocks and transactions), and \<open>isChainValid\<close> (index loop
    \<open>isChainValid_from\<close>). It also holds reference definitions that state what
    the loops compute without loops: \<open>all_transactions\<close>, \<open>tx_net\<close>,
    \<open>pending_spent\<close>, \<open>block_ok\<close> and \<open>chain_valid_spec\<close>.
  \<^item> \<open>Ledger\<close>: the object's life as a state machine. \<open>ledger_step\<close> is one
    successful call of a mutator; \<open>reachable\<close> is the set of states a
    \<open>new Blockchain()\<close> reaches; \<open>ledger_inv\<close> is their invariant, proved by rule
    induction. This theory also holds the tamper-detection theorems.
  \<^item> \<open>MainJs\<close>: \<open>main.js\<close> as one \<open>js_bind\<close> sequence of its statements
    (\<open>main_js\<close>, with \<open>pay\<close> for lines 15--17 and \<open>report\<close> for the output).
    It also holds the spec's end-to-end scenario.
  \<^item> \<open>AccountSpec\<close>: the abstract specification. An account machine (confirmed
    balances, a queue of transfers, a count of sealed batches) with two steps, submit a
    covered transfer and seal the queue with a reward. \<open>abs_state\<close> is the
    refinement mapping from \<open>blockchain\<close>; every reachable ledger state maps to a
    reachable account state. The machine's invariant gives the money supply and the
    balance bound.
  \<^item> \<open>KeyGen\<close>: \<open>keygenerator.js\<close> as a function of the entropy the library
    draws, returning the printed lines (labels as UTF-8 bytes).
  \<^item> \<open>NumberRange\<close>: JavaScript's double arithmetic on integers. \<open>js_add\<close> and
    \<open>js_sub\<close> are exact inside the safe range and \<open>None\<close> outside it.
    \<open>getBalanceOfAddress_checked\<close> is the balance loop with that arithmetic. A range
    invariant of reachable ledgers bounds every amount and every intermediate balance by
    the money supply.
  \<^item> \<open>ObjectStore\<close>: transactions as JavaScript objects shared by reference. A
    store of transaction objects (\<open>heap\<close>) and references into it. The pending array
    and each block's transaction array hold references (\<open>ostate\<close>, \<open>oblock\<close>).
    \<open>o_new_Transaction\<close>, \<open>o_signTransaction\<close>, \<open>o_addTransaction\<close> and
    \<open>o_minePendingTransactions\<close> are the constructor and the methods acting on
    objects. \<open>view\<close> reads a store state as a value-level \<open>blockchain\<close>.
    \<open>o_step\<close>/\<open>o_reach\<close> add the caller's own writes to objects, restricted either
    to objects the ledger does not hold (\<open>client_owned\<close>) or to any object
    (\<open>any_object\<close>). A datatype of calls (\<open>o_action\<close>) with \<open>o_exec\<close> and
    \<open>o_run\<close> runs a caller's script.
  \<^item> this theory: the demonstration instances and the witnesses.

  \<^bold>\<open>How the code's effects are modelled.\<close>
  \<^item> A method that mutates its object returns the new object. That is exact for the
    program's own calls: \<open>minePendingTransactions\<close> replaces, not empties, the
    pending array that the new block keeps. The callers, however, keep references to the
    transaction objects they add. \<open>ObjectStore\<close> models those references, and
    shows that the value model is the store read through its references as long as the
    caller does not write objects the ledger holds.
  \<^item> A \<open>throw\<close> is an \<open>Inl\<close> value, and it leaves the state as it was (the
    admission checks all come before the push).
  \<^item> \<open>Date.now()\<close> is an explicit argument at each call, in the order of the calls.
  \<^item> Numbers are \<open>int\<close>; the nonce is \<open>nat\<close>.
  \<^item> \<open>undefined.hash\<close> on an empty chain is \<open>TypeError\<close>.

  \<^bold>\<open>Termination and partiality.\<close>
  \<^item> The proof-of-work loop has no bound in the code, and the model has no fuel.
    \<open>mineBlock\<close> is a \<open>partial_function (option)\<close>: a search that never stops is
    \<open>None\<close>, and \<open>js_bind\<close> propagates it. Two theorems settle it:
    \<open>Block.mineBlock_least\<close> says the loop returns, at the least solving nonce,
    whenever some nonce solves the puzzle; \<open>Block.mineBlock_none\<close> says it does not
    return otherwise.
  \<^item> Every other loop is structural (\<open>foldl\<close>, \<open>fun\<close>), or a \<open>function\<close> with a
    measure: \<open>length blocks - i\<close> for \<open>isChainValid_from\<close>, the number for
    \<open>dec_str\<close>, and the input length for the JSON string reader.

  \<^bold>\<open>What the theorems show.\<close>
  \<^item> Admission (\<open>Blockchain.addTransaction_accepts\<close>) and mining
    (\<open>Blockchain.minePendingTransactions_result\<close>, \<open>Ledger.reachable_mine_returns\<close>)
    each have their full functional behaviour.
  \<^item> The queries equal their loop-free reference definitions.
  \<^item> Every reachable state passes \<open>isChainValid\<close>, has no negative balance, and
    never commits more in the pending buffer than the mined balance.
  \<^item> \<open>isChainValid\<close> detects a changed stored hash. It also detects a changed block
    when SHA-256 is injective.
  \<^item> Signing round-trips through verification.
  \<^item> \<open>main.js\<close> returns whenever every block has a nonce that meets the
    difficulty (\<open>MainJs.main_js_returns\<close>).
  \<^item> \<open>main.js\<close>, whenever it finishes, prints balance 150 and "valid". The
    spec's end-to-end scenario gives balances 100, then 160 and 40.
  \<^item> The ledger refines the account machine
    (\<open>AccountSpec.reachable_refines_accounts\<close>). So the balances always add up to
    exactly 100 per mined block, and no balance exceeds that supply.
  \<^item> The well-formedness invariant \<open>ledger_inv\<close> is closed under both mutators
    (\<open>Ledger.ledger_inv_closed\<close>).
  \<^item> The key pair that \<open>keygenerator.js\<close> prints round-trips: the printed private
    key reloads to the printed address.
  \<^item> Modelling numbers as \<open>int\<close> is faithful. While the money supply is at most
    2^53-1 (fewer than 9 * 10^13 mined blocks), every amount and every intermediate balance
    of a reachable ledger is a safe integer. So the doubles of the balance loop compute the
    integer balance exactly (\<open>NumberRange.getBalanceOfAddress_checked_exact\<close>), and
    every amount is positive and at most the supply.
  \<^item> The object store refines the value-level ledger under the ownership discipline
    (\<open>ObjectStore.o_reach_refines\<close>). Without that discipline, a write to a sealed
    transaction is still detected when the hash is injective
    (\<open>ObjectStore.sealed_write_detected\<close>).

  The findings, each proved:
  \<^item> the transaction hash has no field separators, so one signature validates two
    transfers (\<open>Transaction.signature_reusable\<close>);
  \<^item> \<open>isChainValid\<close> does not check the proof of work
    (\<open>Ledger.rehash_last_block_valid\<close>);
  \<^item> \<open>isChainValid\<close> throws on an unsigned transfer, where the spec says it returns
    false (\<open>Ledger.isChainValid_throws_unsigned\<close>);
  \<^item> the spec's overspend scenario (balance 100, 40 pending, a new transfer of 150)
    meets the insufficient-balance check first, because \<open>addTransaction\<close> checks the
    balance before the pending total (the check order of
    \<open>Blockchain.addTransaction_accepts\<close>);
  \<^item> a sender that is not a public key makes \<open>addTransaction\<close> throw the library's
    error, outside the spec's error taxonomy (\<open>Blockchain.addTransaction_undecodable_key\<close>);
  \<^item> a difficulty above the hash length (64) makes every mining call hang
    (\<open>Block.mineBlock_difficulty_exceeds_hash\<close>);
  \<^item> the ledger stores the caller's transaction object by reference. The owner can raise
    the amount of a pending transfer and re-sign it, and the mined chain passes
    \<open>isChainValid\<close> with a negative balance (\<open>pending_write_overspends\<close>).

  \<^bold>\<open>Assumptions.\<close> The only assumption on the crypto primitives is
  \<open>sound_signatures\<close>: a signature is non-empty and verifies under its own key's
  public key. Verification is partial (\<open>ec_verify\<close> returns \<open>None\<close> where the
  library throws on a key or signature it cannot decode), and \<open>isValid\<close> turns that into
  \<open>LibraryError\<close>. \<open>KeyGen.sound_keys\<close> is assumed by the key generator's round trip: a
  printed private key reloads to the same public key. \<open>tamper_detected\<close> also
  assumes that the hash is injective. The randomness of \<open>ec.genKeyPair()\<close> is an
  argument, as the clock is.

  \<^bold>\<open>Not modelled.\<close>
  \<^item> The internals of SHA-256 and secp256k1: they are parameters.
  \<^item> The \<open>debug\<close> logging of \<open>blockchain.js\<close>: pure I/O with no effect on the
    state.
  \<^item> Numbers that are not integers (fractions, \<open>NaN\<close>), and IEEE rounding beyond
    the safe range. A caller can pass such an amount to \<open>addTransaction\<close>; the model has
    only integers. For integers the model is exact inside the safe range, and the
    range theorem above shows that reachable ledgers stay inside it. The sum in
    \<open>addTransaction\<close>'s overspend check is then at most twice the supply: pending
    spending is covered by the balance (C2), the new amount passed the balance check, and
    balances are bounded by the supply (C22). The theorems about balances (C3, C21, C22)
    are therefore theorems about integer amounts. With fractions they fail in the code:
    with balance 1, a pending 0.5 and a new 0.5000000000000001 pass the overspend check,
    because the double sum rounds to 1. After mining, the balance replays to about
    -1.1e-16. This is recorded as a finding, without a theorem: the model has no doubles.
  \<^item> The saturation of the nonce. In JavaScript \<open>nonce++\<close> stops changing at 2^53,
    so no larger nonce is ever tried, while \<open>mineBlock\<close> counts in \<open>nat\<close>.
    \<open>mineBlock_least\<close>, \<open>reachable_mine_returns\<close> and \<open>main_js_returns\<close> are
    exact for solving nonces below 2^53, that is for any search of fewer than about
    9 * 10^15 hashes.
  \<^item> Writes by a caller to the public fields of \<open>Block\<close> and \<open>Blockchain\<close>
    objects (for instance replacing \<open>chain\<close>). The tamper theorems cover changed
    blocks as values. Writes to transaction objects are modelled in \<open>ObjectStore\<close>.
  \<^item> Characters outside ASCII: \<open>char\<close> is a byte here, a UTF-16 code unit in
    JavaScript.
  \<^item> The reward pushed into the buffer before the empty-chain \<open>TypeError\<close> of
    \<open>minePendingTransactions\<close>: the model returns only the error, and that state is
    unreachable.

  \<^bold>\<open>Demonstration instances.\<close> \<open>demo_crypto\<close> is a toy hash and signature scheme
  under which each block is mined at nonce 1. It is used only to evaluate the
  definitions in the witnesses: every hypothesis of every theorem holds at a concrete
  input. \<open>inj_crypto\<close> prefixes the whole hashed text instead, so it is injective.
  The object-store scenarios \<open>honest_script\<close> and \<open>alias_script\<close> run under it.
\<close>

section \<open>Demonstration instances\<close>

text \<open>
  A toy instance of the crypto capability, used only to show that the hypotheses of the
  theorems can hold: its hash puts two zeros in front exactly when the hashed text ends
  in an odd character (so each block is mined at nonce 1), and a signature is the public
  key followed by the message.
\<close>

definition demo_hash :: "string \<Rightarrow> string" where
  "demo_hash s = (if s \<noteq> [] \<and> odd (of_char (last s) :: nat) then ''00'' else ''ff'') @ take 6 s"

definition demo_crypto :: "string crypto" where
  "demo_crypto = \<lparr>sha256 = demo_hash, ec_sign = (\<lambda>k m. ''sig:04'' @ k @ m),
     ec_verify = (\<lambda>p m s. if take 2 p = ''04'' then Some (s = ''sig:'' @ p @ m) else None),
     ec_public = (\<lambda>k. ''04'' @ k),
     ec_keyFromPrivate = (\<lambda>h. take 2 h), ec_genKeyPair = (\<lambda>n. take 2 (nat_str n)),
     ec_getPrivate = (\<lambda>k. k)\<rparr>"

definition demo_chain1 :: blockchain where
  "demo_chain1 =
     \<lparr>chain =
        [createGenesisBlock demo_crypto,
         \<lparr>previousHash = ''ff016586'', timestamp = 11,
          transactions = [new_Transaction None ''04aa'' 100 10], nonce = 1, hash = ''00ff0165''\<rparr>],
      difficulty = 2, pendingTransactions = [], miningReward = 100\<rparr>"

definition demo_tx :: transaction where
  "demo_tx = (new_Transaction (Some ''04aa'') ''04bb'' 40 12)\<lparr>signature := Some ''sig:04aaff04aa04''\<rparr>"

definition demo_block :: block where
  "demo_block = new_Block demo_crypto 11 [] ''abc''"

definition stuck_crypto :: "string crypto" where
  "stuck_crypto = demo_crypto\<lparr>sha256 := (\<lambda>s. ''ff'')\<rparr>"

definition demo_chain2 :: blockchain where
  "demo_chain2 = demo_chain1\<lparr>pendingTransactions := [demo_tx]\<rparr>"

definition id_crypto :: "string crypto" where
  "id_crypto = demo_crypto\<lparr>sha256 := id\<rparr>"

definition id_chain :: blockchain where
  "id_chain = (new_Blockchain id_crypto)\<lparr>chain :=
     [createGenesisBlock id_crypto, new_Block id_crypto 11 [] (hash (createGenesisBlock id_crypto))]\<rparr>"

definition forged_block :: block where
  "forged_block = new_Block demo_crypto 11 [new_Transaction None ''04ee'' 1000 10] ''ff016586''"

text \<open>
  An injective instance for the object-store scenarios: the toy hash's two-character
  prefix followed by the whole hashed text. Blocks are still mined at nonce 1, and a
  signature now covers the amount.
\<close>

definition pow_hash :: "string \<Rightarrow> string" where
  "pow_hash s = (if s \<noteq> [] \<and> odd (of_char (last s) :: nat) then ''00'' else ''ff'') @ s"

definition inj_crypto :: "string crypto" where
  "inj_crypto = demo_crypto\<lparr>sha256 := pow_hash\<rparr>"

text \<open>
  Two callers' scripts against the object store. Both mine a reward for \<open>04aa\<close>, create
  a transfer of 40 from \<open>04aa\<close> to \<open>04bb\<close> (object 1), sign it with the key
  \<open>aa\<close> and add it. The honest script then mines. The other then runs
  \<open>tx.amount = 1000; tx.signTransaction(key)\<close> on the object it still holds, and mines.
\<close>

definition honest_script :: "string o_action list" where
  "honest_script =
     [MineTx 10 11 ''04aa'', NewTx (Some ''04aa'') ''04bb'' 40 12, SignTx ''aa'' 1, AddTx 1,
      MineTx 13 14 ''04cc'']"

definition alias_script :: "string o_action list" where
  "alias_script =
     [MineTx 10 11 ''04aa'', NewTx (Some ''04aa'') ''04bb'' 40 12, SignTx ''aa'' 1, AddTx 1,
      AssignTx 1 (\<lambda>t. t\<lparr>amount := 1000\<rparr>), SignTx ''aa'' 1, MineTx 13 14 ''04cc'']"

definition demo_os :: ostate where
  "demo_os = the (o_run inj_crypto client_owned honest_script (o_new_Blockchain inj_crypto))"

section \<open>Witnesses\<close>

lemma demo_sound: "sound_signatures demo_crypto"
  by (simp add: sound_signatures_def demo_crypto_def)

lemma demo_mine1:
  "minePendingTransactions demo_crypto 10 11 ''04aa'' (new_Blockchain demo_crypto) = Some (Inr demo_chain1)"
  by code_simp

theorem addTransaction_accepts_witness:
  "fromAddress demo_tx = Some ''04aa'' \<and> toAddress demo_tx \<noteq> [] \<and>
   isValid demo_crypto demo_tx = Inr True \<and>
   addTransaction demo_crypto demo_tx demo_chain1 =
     Inr (demo_chain1\<lparr>pendingTransactions := [demo_tx]\<rparr>)"
proof -
  have h: "fromAddress demo_tx = Some ''04aa''" "toAddress demo_tx \<noteq> []"
    "isValid demo_crypto demo_tx = Inr True" by code_simp+
  have "amount demo_tx = 40" "getBalanceOfAddress demo_chain1 ''04aa'' = 100"
    "pending_spent demo_chain1 ''04aa'' = 0" by code_simp+
  with h addTransaction_accepts [OF h(1) _ h(2,3)] show ?thesis by (simp add: demo_chain1_def)
qed

theorem signTransaction_correct_witness:
  "sound_signatures demo_crypto \<and>
   signTransaction demo_crypto ''aa'' (new_Transaction (Some ''04aa'') ''04bb'' 40 12) = Inr demo_tx \<and>
   isValid demo_crypto demo_tx = Inr True"
proof -
  have s: "signTransaction demo_crypto ''aa'' (new_Transaction (Some ''04aa'') ''04bb'' 40 12) = Inr demo_tx"
    by code_simp
  from signTransaction_correct [OF demo_sound, where k = "''aa''" and t = "new_Transaction (Some ''04aa'') ''04bb'' 40 12"]
    demo_sound s show ?thesis by simp
qed

theorem minePendingTransactions_result_witness:
  "minePendingTransactions demo_crypto 10 11 ''04aa'' (new_Blockchain demo_crypto) = Some (Inr demo_chain1) \<and>
   pow_ok 2 (hash (last (chain demo_chain1))) \<and> getBalanceOfAddress demo_chain1 ''04aa'' = 100"
proof -
  have "difficulty (new_Blockchain demo_crypto) = 2" by (simp add: new_Blockchain_def)
  with minePendingTransactions_result [OF demo_mine1] demo_mine1 show ?thesis by auto
qed

theorem mineBlock_least_witness:
  "hash demo_block = block_calculateHash demo_crypto demo_block \<and>
   pow_ok 2 (block_calculateHash demo_crypto (demo_block\<lparr>nonce := 1\<rparr>)) \<and>
   mineBlock demo_crypto 2 demo_block = Some (with_nonce demo_crypto demo_block 1)"
proof -
  have h: "hash demo_block = block_calculateHash demo_crypto demo_block" "nonce demo_block \<le> 1"
    "pow_ok 2 (block_calculateHash demo_crypto (demo_block\<lparr>nonce := 1\<rparr>))"
    "\<not> pow_ok 2 (block_calculateHash demo_crypto (demo_block\<lparr>nonce := 0\<rparr>))" by code_simp+
  have "(LEAST m. nonce demo_block \<le> m \<and> pow_ok 2 (block_calculateHash demo_crypto (demo_block\<lparr>nonce := m\<rparr>))) = 1"
  proof (rule Least_equality)
    show "nonce demo_block \<le> 1 \<and> pow_ok 2 (block_calculateHash demo_crypto (demo_block\<lparr>nonce := 1\<rparr>))"
      using h by simp
  next
    fix y assume "nonce demo_block \<le> y \<and> pow_ok 2 (block_calculateHash demo_crypto (demo_block\<lparr>nonce := y\<rparr>))"
    then show "1 \<le> y" using h(4) by (cases y) auto
  qed
  with mineBlock_least [OF h(1-3)] h show ?thesis by simp
qed

theorem mineBlock_none_witness:
  "hash (new_Block stuck_crypto 11 [] ''abc'') = block_calculateHash stuck_crypto (new_Block stuck_crypto 11 [] ''abc'') \<and>
   mineBlock stuck_crypto 2 (new_Block stuck_crypto 11 [] ''abc'') = None"
proof -
  have h: "\<forall>n \<ge> nonce (new_Block stuck_crypto 11 [] ''abc''). \<not> pow_ok 2 (block_calculateHash stuck_crypto ((new_Block stuck_crypto 11 [] ''abc'')\<lparr>nonce := n\<rparr>))"
    "hash (new_Block stuck_crypto 11 [] ''abc'') = block_calculateHash stuck_crypto (new_Block stuck_crypto 11 [] ''abc'')"
  proof -
    have "\<not> pow_ok 2 ''ff''" by code_simp
    then show "\<forall>n \<ge> nonce (new_Block stuck_crypto 11 [] ''abc''). \<not> pow_ok 2 (block_calculateHash stuck_crypto ((new_Block stuck_crypto 11 [] ''abc'')\<lparr>nonce := n\<rparr>))"
      by (simp add: stuck_crypto_def block_calculateHash_def)
    show "hash (new_Block stuck_crypto 11 [] ''abc'') = block_calculateHash stuck_crypto (new_Block stuck_crypto 11 [] ''abc'')"
      by (rule new_Block_consistent)
  qed
  from mineBlock_none [OF h] h(2) show ?thesis by simp
qed

lemma demo_add:
  "addTransaction demo_crypto demo_tx demo_chain1 = Inr demo_chain2"
  by code_simp

lemma demo_reachable1: "reachable demo_crypto demo_chain1"
  by (rule reachable.step [OF reachable.init ledger_step.mine [OF demo_mine1]])

lemma demo_reachable: "reachable demo_crypto demo_chain2"
  by (rule reachable.step [OF demo_reachable1 ledger_step.add [OF demo_add]])

theorem reachable_isChainValid_witness:
  "reachable demo_crypto demo_chain2 \<and> isChainValid demo_crypto demo_chain2 = Inr True"
  using reachable_isChainValid [OF demo_reachable] demo_reachable by simp

theorem reachable_balance_nonneg_witness:
  "reachable demo_crypto demo_chain2 \<and> 0 \<le> getBalanceOfAddress demo_chain2 ''04bb''"
  using reachable_balance_nonneg [OF demo_reachable] demo_reachable by simp

theorem reachable_no_overcommit_witness:
  "reachable demo_crypto demo_chain2 \<and>
   pending_spent demo_chain2 ''04aa'' \<le> getBalanceOfAddress demo_chain2 ''04aa'' \<and>
   pending_spent demo_chain2 ''04aa'' = 40 \<and> getBalanceOfAddress demo_chain2 ''04aa'' = 100"
proof -
  have "pending_spent demo_chain2 ''04aa'' = 40" "getBalanceOfAddress demo_chain2 ''04aa'' = 100"
    by code_simp+
  with reachable_no_overcommit [OF demo_reachable] demo_reachable show ?thesis by simp
qed

theorem reachable_mine_returns_witness:
  "reachable demo_crypto demo_chain2 \<and>
   (\<exists>bc'. minePendingTransactions demo_crypto 20 21 ''04cc'' demo_chain2 = Some (Inr bc'))"
proof -
  have "pow_ok (difficulty demo_chain2) (block_calculateHash demo_crypto
          ((new_Block demo_crypto 21 (pendingTransactions demo_chain2 @
              [new_Transaction None ''04cc'' (miningReward demo_chain2) 20])
             (hash (last (chain demo_chain2))))\<lparr>nonce := 1\<rparr>))"
    by code_simp
  from reachable_mine_returns [OF demo_reachable this] demo_reachable show ?thesis by simp
qed

theorem tamper_hash_detected_witness:
  "isChainValid demo_crypto demo_chain1 = Inr True \<and> 1 < length (chain demo_chain1) \<and>
   ''00ff0166'' \<noteq> hash (chain demo_chain1 ! 1) \<and>
   isChainValid demo_crypto (demo_chain1\<lparr>chain := (chain demo_chain1)[1 := (chain demo_chain1 ! 1)\<lparr>hash := ''00ff0166''\<rparr>]\<rparr>) \<noteq> Inr True"
proof -
  have h: "isChainValid demo_crypto demo_chain1 = Inr True" "1 < length (chain demo_chain1)"
    "''00ff0166'' \<noteq> hash (chain demo_chain1 ! 1)" by code_simp+
  from tamper_hash_detected [OF h] h show ?thesis by simp
qed

theorem tamper_detected_witness:
  "inj (sha256 id_crypto) \<and> isChainValid id_crypto id_chain = Inr True \<and>
   (chain id_chain ! 0)\<lparr>timestamp := 0\<rparr> \<noteq> chain id_chain ! 0 \<and>
   isChainValid id_crypto (id_chain\<lparr>chain := (chain id_chain)[0 := (chain id_chain ! 0)\<lparr>timestamp := 0\<rparr>]\<rparr>) \<noteq> Inr True"
proof -
  have inj: "inj (sha256 id_crypto)" by (simp add: id_crypto_def)
  have h: "isChainValid id_crypto id_chain = Inr True" "0 < length (chain id_chain)"
    "(chain id_chain ! 0)\<lparr>timestamp := 0\<rparr> \<noteq> chain id_chain ! 0"
    "hash ((chain id_chain ! 0)\<lparr>timestamp := 0\<rparr>) = hash (chain id_chain ! 0)" by code_simp+
  from tamper_detected [OF inj h(1-3)] h inj show ?thesis by simp
qed

theorem rehash_last_block_valid_witness:
  "isChainValid demo_crypto demo_chain1 = Inr True \<and>
   chain demo_chain1 = [createGenesisBlock demo_crypto] @ [chain demo_chain1 ! 1] \<and>
   previousHash forged_block = previousHash (chain demo_chain1 ! 1) \<and>
   txs_valid demo_crypto (transactions forged_block) = Inr True \<and>
   isChainValid demo_crypto (demo_chain1\<lparr>chain := [createGenesisBlock demo_crypto] @
     [forged_block\<lparr>hash := block_calculateHash demo_crypto forged_block\<rparr>]\<rparr>) = Inr True \<and>
   \<not> pow_ok (difficulty demo_chain1) (block_calculateHash demo_crypto forged_block)"
proof -
  have h: "isChainValid demo_crypto demo_chain1 = Inr True"
    "chain demo_chain1 = [createGenesisBlock demo_crypto] @ [chain demo_chain1 ! 1]"
    "[createGenesisBlock demo_crypto] \<noteq> []"
    "previousHash forged_block = previousHash (chain demo_chain1 ! 1)"
    "txs_valid demo_crypto (transactions forged_block) = Inr True"
    "\<not> pow_ok (difficulty demo_chain1) (block_calculateHash demo_crypto forged_block)"
    by code_simp+
  from rehash_last_block_valid [OF h(1-5)] h show ?thesis by simp
qed

lemma demo_main:
  "main_js demo_crypto int = Some (Inr ['''', ''Balance: 150'', '''', ''Blockchain valid? Yes''])"
  by code_simp

theorem main_js_output_witness:
  "sound_signatures demo_crypto \<and>
   ec_public demo_crypto (ec_keyFromPrivate demo_crypto main_private_key) \<notin> {[], ''address1'', ''address2''} \<and>
   main_js demo_crypto int = Some (Inr ['''', ''Balance: 150'', '''', ''Blockchain valid? Yes''])"
proof -
  have "ec_public demo_crypto (ec_keyFromPrivate demo_crypto main_private_key) = ''047c''"
    by code_simp
  with main_js_output [OF demo_sound _ demo_main] demo_sound demo_main show ?thesis by simp
qed

theorem spec_scenario_balances_witness:
  "minePendingTransactions demo_crypto 10 11 ''04aa'' (new_Blockchain demo_crypto) = Some (Inr demo_chain1) \<and>
   getBalanceOfAddress demo_chain1 ''04aa'' = 100 \<and>
   (\<exists>bc2. pay demo_crypto ''aa'' ''04aa'' ''04bb'' 40 12 demo_chain1 = Some (Inr bc2) \<and>
      (\<forall>r. minePendingTransactions demo_crypto 20 21 ''04aa'' bc2 = Some r \<longrightarrow>
         (\<exists>bc3. r = Inr bc3 \<and> getBalanceOfAddress bc3 ''04aa'' = 160 \<and>
                getBalanceOfAddress bc3 ''04bb'' = 40)))"
proof -
  have "ec_public demo_crypto ''aa'' = ''04aa''" by (simp add: demo_crypto_def)
  from spec_scenario_balances [OF demo_sound this _ _ _ demo_mine1, where b = "''04bb''" and tc = 12
      and td = 20 and te = 21] demo_mine1
  show ?thesis by simp
qed

theorem isChainValid_rejects_foreign_genesis_witness:
  "chain (demo_chain1\<lparr>chain := [demo_block]\<rparr>) = demo_block # [] \<and>
   demo_block \<noteq> createGenesisBlock demo_crypto \<and>
   isChainValid demo_crypto (demo_chain1\<lparr>chain := [demo_block]\<rparr>) = Inr False"
proof -
  have h: "chain (demo_chain1\<lparr>chain := [demo_block]\<rparr>) = demo_block # []"
    "demo_block \<noteq> createGenesisBlock demo_crypto" by code_simp+
  from isChainValid_rejects_foreign_genesis [OF h] h show ?thesis by simp
qed

theorem reachable_refines_accounts_witness:
  "reachable demo_crypto demo_chain2 \<and> acct_reachable 100 (abs_state demo_chain2)"
  using reachable_refines_accounts [OF demo_reachable] demo_reachable by simp

theorem reachable_money_supply_witness:
  "reachable demo_crypto demo_chain2 \<and>
   (\<Sum>a | getBalanceOfAddress demo_chain2 a \<noteq> 0. getBalanceOfAddress demo_chain2 a) = 100"
proof -
  have "length (chain demo_chain2) = 2" by code_simp
  with reachable_money_supply [OF demo_reachable] demo_reachable show ?thesis by simp
qed

theorem reachable_balance_bound_witness:
  "reachable demo_crypto demo_chain2 \<and> getBalanceOfAddress demo_chain2 ''04aa'' \<le> 100"
proof -
  have "length (chain demo_chain2) = 2" by code_simp
  with reachable_balance_bound [OF demo_reachable, of "''04aa''"] demo_reachable show ?thesis by simp
qed

theorem ledger_inv_closed_witness:
  "ledger_inv demo_crypto demo_chain1 \<and> addTransaction demo_crypto demo_tx demo_chain1 = Inr demo_chain2 \<and>
   ledger_inv demo_crypto demo_chain2"
proof -
  have inv: "ledger_inv demo_crypto demo_chain1" by (rule reachable_ledger_inv [OF demo_reachable1])
  from ledger_inv_closed [OF inv, where t = demo_tx and bc' = demo_chain2] inv demo_add
  show ?thesis by simp
qed

theorem keygenerator_roundtrip_witness:
  "sound_keys demo_crypto \<and>
   (\<exists>pub priv.
      strip_prefix (keygen_public_msg @ '' '') (keygenerator demo_crypto 42 ! 1) = Some pub \<and>
      strip_prefix (keygen_private_msg @ '' '') (keygenerator demo_crypto 42 ! 3) = Some priv \<and>
      pub = ec_public demo_crypto (ec_keyFromPrivate demo_crypto priv))"
proof -
  have "sound_keys demo_crypto" by (simp add: sound_keys_def demo_crypto_def)
  with keygenerator_roundtrip [OF this, of 42] show ?thesis by simp
qed

theorem isValid_errors_witness:
  "isValid demo_crypto (new_Transaction (Some ''04aa'') ''04bb'' 1 1) = Inl MissingSignatureError"
  using isValid_errors [of demo_crypto "new_Transaction (Some ''04aa'') ''04bb'' 1 1" MissingSignatureError]
  by (simp add: new_Transaction_def)

theorem txs_valid_first_error_witness:
  "txs_valid demo_crypto [demo_tx, new_Transaction (Some ''04aa'') ''04cc'' 5 13, demo_tx] =
     Inl MissingSignatureError"
proof -
  have "isValid demo_crypto demo_tx = Inr True"
    "isValid demo_crypto (new_Transaction (Some ''04aa'') ''04cc'' 5 13) = Inl MissingSignatureError"
    by code_simp+
  then show ?thesis
    using txs_valid_first_error [of demo_crypto "[demo_tx, new_Transaction (Some ''04aa'') ''04cc'' 5 13, demo_tx]"
        MissingSignatureError]
    by (metis append.simps(1) append.simps(2) empty_iff list.set(1) set_ConsD)
qed

theorem isChainValid_pairs_witness:
  "isChainValid demo_crypto demo_chain1 = Inr True \<and>
   (\<exists>bs. chain demo_chain1 = createGenesisBlock demo_crypto # bs \<and>
      (\<forall>(p, c) \<in> set (zip (chain demo_chain1) bs).
         hash p = previousHash c \<and> hasValidTransactions demo_crypto c = Inr True \<and>
         hash c = block_calculateHash demo_crypto c))"
proof -
  have "isChainValid demo_crypto demo_chain1 = Inr True" by code_simp
  with isChainValid_pairs [of demo_crypto demo_chain1] show ?thesis by simp
qed

theorem tamper_link_detected_witness:
  "isChainValid demo_crypto demo_chain1 = Inr True \<and> 1 < length (chain demo_chain1) \<and>
   ''zz'' \<noteq> previousHash (chain demo_chain1 ! 1) \<and>
   isChainValid demo_crypto (demo_chain1\<lparr>chain := (chain demo_chain1)[1 :=
     (chain demo_chain1 ! 1)\<lparr>previousHash := ''zz''\<rparr>]\<rparr>) \<noteq> Inr True"
proof -
  have h: "isChainValid demo_crypto demo_chain1 = Inr True" "(0::nat) < 1" "1 < length (chain demo_chain1)"
    "''zz'' \<noteq> previousHash (chain demo_chain1 ! 1)" by code_simp+
  from tamper_link_detected [OF h] h show ?thesis by simp
qed

theorem addTransaction_undecodable_key_witness:
  "addTransaction demo_crypto
     ((new_Transaction (Some ''address1'') ''04bb'' 5 13)\<lparr>signature := Some ''sig''\<rparr>) demo_chain1 =
   Inl LibraryError"
proof -
  let ?t = "(new_Transaction (Some ''address1'') ''04bb'' 5 13)\<lparr>signature := Some ''sig''\<rparr>"
  have "ec_verify demo_crypto ''address1'' (tx_calculateHash demo_crypto ?t) ''sig'' = None"
    by (simp add: demo_crypto_def)
  with addTransaction_undecodable_key [of ?t "''address1''" "''sig''" demo_crypto demo_chain1]
  show ?thesis by (simp add: new_Transaction_def)
qed

lemma demo_pow: "\<forall>b. \<exists>n. pow_ok 2 (block_calculateHash demo_crypto (b\<lparr>nonce := n\<rparr>))"
proof
  fix b :: block
  have "nat_str 1 = ''1''" "odd (of_char (CHR ''1'') :: nat)" "replicate 2 (CHR ''0'') = ''00''"
    by code_simp+
  then have "pow_ok 2 (block_calculateHash demo_crypto (b\<lparr>nonce := 1\<rparr>))"
    by (simp add: block_calculateHash_def demo_crypto_def demo_hash_def pow_ok_def)
  then show "\<exists>n. pow_ok 2 (block_calculateHash demo_crypto (b\<lparr>nonce := n\<rparr>))" ..
qed

theorem main_js_returns_witness:
  "sound_signatures demo_crypto \<and>
   ec_public demo_crypto (ec_keyFromPrivate demo_crypto main_private_key) \<notin> {[], ''address1'', ''address2''} \<and>
   (\<exists>r. main_js demo_crypto int = Some r)"
proof -
  have a: "ec_public demo_crypto (ec_keyFromPrivate demo_crypto main_private_key) = ''047c''"
    by code_simp
  then have "ec_public demo_crypto (ec_keyFromPrivate demo_crypto main_private_key) \<notin> {[], ''address1'', ''address2''}"
    by simp
  from main_js_returns [OF demo_sound this demo_pow, of int] this demo_sound show ?thesis by simp
qed

theorem getBalanceOfAddress_checked_exact_witness:
  "reachable demo_crypto demo_chain2 \<and>
   100 * int (length (chain demo_chain2) - 1) \<le> max_safe_integer \<and>
   getBalanceOfAddress_checked demo_chain2 ''04aa'' = Some (getBalanceOfAddress demo_chain2 ''04aa'')"
proof -
  have "length (chain demo_chain2) = 2" by code_simp
  then have h: "100 * int (length (chain demo_chain2) - 1) \<le> max_safe_integer"
    by (simp add: max_safe_integer_def)
  from getBalanceOfAddress_checked_exact [OF demo_reachable h] demo_reachable h show ?thesis by simp
qed

theorem reachable_amounts_in_range_witness:
  "reachable demo_crypto demo_chain2 \<and>
   demo_tx \<in> set (all_transactions demo_chain2) \<union> set (pendingTransactions demo_chain2) \<and>
   0 < amount demo_tx \<and> amount demo_tx \<le> 100"
proof -
  have "length (chain demo_chain2) = 2" "pendingTransactions demo_chain2 = [demo_tx]" by code_simp+
  with reachable_amounts_in_range [OF demo_reachable, of demo_tx] demo_reachable show ?thesis by simp
qed

theorem mineBlock_difficulty_exceeds_hash_witness:
  "(\<forall>s. length (sha256 demo_crypto s) < 9) \<and> mineBlock demo_crypto 9 demo_block = None"
proof -
  have short: "\<forall>s. length (sha256 demo_crypto s) < 9"
    by (simp add: demo_crypto_def demo_hash_def min_less_iff_disj)
  have "hash demo_block = block_calculateHash demo_crypto demo_block"
    unfolding demo_block_def by (rule new_Block_consistent)
  from mineBlock_difficulty_exceeds_hash [OF short this] short show ?thesis by simp
qed

section \<open>The object store\<close>

lemma inj_crypto_inj: "inj (sha256 inj_crypto)"
proof (rule injI)
  fix x y assume "sha256 inj_crypto x = sha256 inj_crypto y"
  then show "x = y" by (simp add: inj_crypto_def pow_hash_def split: if_splits)
qed

lemma inj_crypto_sound: "sound_signatures inj_crypto"
  by (simp add: sound_signatures_def inj_crypto_def demo_crypto_def)

lemma demo_os_run: "o_run inj_crypto client_owned honest_script (o_new_Blockchain inj_crypto) = Some demo_os"
proof -
  have "o_run inj_crypto client_owned honest_script (o_new_Blockchain inj_crypto) \<noteq> None"
    by code_simp
  then show ?thesis by (simp add: demo_os_def)
qed

text \<open>
  C35: The ownership discipline is not enforced. The spec (section 3) says that a
  transaction's fields are immutable once constructed and that a mutation would invalidate
  its signature. The code stores the caller's object by reference and does not freeze it.
  With sound signatures and an injective hash, a caller can add a covered transfer of
  40, raise its amount to 1000, and re-sign it before mining. The mined chain then passes
  isChainValid() and the sender's balance is negative. The value-level ledger has no such
  state (C3).
\<close>

theorem pending_write_overspends:
  "sound_signatures inj_crypto \<and> inj (sha256 inj_crypto) \<and>
   (\<exists>s. o_reach inj_crypto any_object s \<and> getBalanceOfAddress (view s) ''04aa'' < 0 \<and>
        isChainValid inj_crypto (view s) = Inr True)"
proof -
  have "case o_run inj_crypto any_object alias_script (o_new_Blockchain inj_crypto) of
          None \<Rightarrow> False
        | Some s \<Rightarrow> getBalanceOfAddress (view s) ''04aa'' < 0 \<and>
                    isChainValid inj_crypto (view s) = Inr True"
    by code_simp
  then obtain s where run: "o_run inj_crypto any_object alias_script (o_new_Blockchain inj_crypto) = Some s"
    and bad: "getBalanceOfAddress (view s) ''04aa'' < 0" "isChainValid inj_crypto (view s) = Inr True"
    by (auto split: option.splits)
  from o_run_reach [OF o_reach.init run] bad inj_crypto_inj inj_crypto_sound show ?thesis by blast
qed

theorem o_reach_refines_witness:
  "o_reach inj_crypto client_owned demo_os \<and> reachable inj_crypto (view demo_os)"
proof -
  have r: "o_reach inj_crypto client_owned demo_os" by (rule o_run_reach [OF o_reach.init demo_os_run])
  from o_reach_refines [OF r] r show ?thesis by simp
qed

theorem sealed_write_detected_witness:
  "inj (sha256 inj_crypto) \<and> o_wf demo_os \<and> isChainValid inj_crypto (view demo_os) = Inr True \<and>
   0 \<in> set (sealed_refs demo_os) \<and> (heap demo_os ! 0)\<lparr>amount := 1000\<rparr> \<noteq> heap demo_os ! 0 \<and>
   isChainValid inj_crypto
     (view (demo_os\<lparr>heap := (heap demo_os)[0 := (heap demo_os ! 0)\<lparr>amount := 1000\<rparr>]\<rparr>)) \<noteq> Inr True"
proof -
  have "o_wf demo_os \<and> isChainValid inj_crypto (view demo_os) = Inr True \<and>
      0 \<in> set (sealed_refs demo_os) \<and> (heap demo_os ! 0)\<lparr>amount := 1000\<rparr> \<noteq> heap demo_os ! 0"
    by code_simp
  then have h: "o_wf demo_os" "isChainValid inj_crypto (view demo_os) = Inr True"
    "0 \<in> set (sealed_refs demo_os)" "(heap demo_os ! 0)\<lparr>amount := 1000\<rparr> \<noteq> heap demo_os ! 0"
    by simp_all
  from sealed_write_detected [OF inj_crypto_inj h] h inj_crypto_inj show ?thesis by simp
qed

end
